theory Spec2Isabelle
  imports Complex_Main "HOL-Library.AList" "HOL-Library.Sublist"
begin

section \<open>JavaScript built-ins used by the routes\<close>

text \<open>
  A string is the sequence of the UTF-8 bytes of the JavaScript string. White space is what
  \<^verbatim>\<open>String.prototype.trim\<close>, the \<^verbatim>\<open>\s\<close> of the validator's \<^verbatim>\<open>trim\<close> and
  \<^verbatim>\<open>parseInt\<close> skip: the six ASCII characters U+0009 to U+000D and U+0020, then U+00A0
  (two bytes), and U+1680, U+2000 to U+200A, U+2028, U+2029, U+202F, U+205F, U+3000 and
  U+FEFF (three bytes each).
\<close>

definition isWhiteSpace :: "char \<Rightarrow> bool" where
  "isWhiteSpace c =
     (c = CHR 0x09 \<or> c = CHR 0x0A \<or> c = CHR 0x0B \<or> c = CHR 0x0C \<or> c = CHR 0x0D \<or> c = CHR 0x20)"

definition isWhiteSpace2 :: "char \<Rightarrow> char \<Rightarrow> bool" where
  "isWhiteSpace2 a b = (a = CHR 0xC2 \<and> b = CHR 0xA0)"

definition isWhiteSpace3 :: "char \<Rightarrow> char \<Rightarrow> char \<Rightarrow> bool" where
  "isWhiteSpace3 a b c =
     ((a = CHR 0xE1 \<and> b = CHR 0x9A \<and> c = CHR 0x80) \<or>
      (a = CHR 0xE2 \<and> b = CHR 0x80 \<and>
         ((128 \<le> (of_char c :: nat) \<and> (of_char c :: nat) \<le> 138) \<or>
          c = CHR 0xA8 \<or> c = CHR 0xA9 \<or> c = CHR 0xAF)) \<or>
      (a = CHR 0xE2 \<and> b = CHR 0x81 \<and> c = CHR 0x9F) \<or>
      (a = CHR 0xE3 \<and> b = CHR 0x80 \<and> c = CHR 0x80) \<or>
      (a = CHR 0xEF \<and> b = CHR 0xBB \<and> c = CHR 0xBF))"

text \<open>
  \<open>startsWith\<close> tests for one white space character at the front of a string, \<open>strip\<close>
  removes all of them; the three predicates recognise the characters of one, two and three
  bytes. \<open>whiteSpaces\<close> holds of the strings made of such characters only.
\<close>

fun startsWith ::
  "(char \<Rightarrow> bool) \<Rightarrow> (char \<Rightarrow> char \<Rightarrow> bool) \<Rightarrow> (char \<Rightarrow> char \<Rightarrow> char \<Rightarrow> bool) \<Rightarrow> string \<Rightarrow> bool" where
  "startsWith p1 p2 p3 (a # b # c # s) = (p1 a \<or> p2 a b \<or> p3 a b c)"
| "startsWith p1 p2 p3 [a, b] = (p1 a \<or> p2 a b)"
| "startsWith p1 p2 p3 [a] = p1 a"
| "startsWith p1 p2 p3 [] = False"

fun strip ::
  "(char \<Rightarrow> bool) \<Rightarrow> (char \<Rightarrow> char \<Rightarrow> bool) \<Rightarrow> (char \<Rightarrow> char \<Rightarrow> char \<Rightarrow> bool) \<Rightarrow> string \<Rightarrow> string" where
  "strip p1 p2 p3 (a # b # c # s) =
     (if p1 a then strip p1 p2 p3 (b # c # s)
      else if p2 a b then strip p1 p2 p3 (c # s)
      else if p3 a b c then strip p1 p2 p3 s
      else a # b # c # s)"
| "strip p1 p2 p3 [a, b] =
     (if p1 a then strip p1 p2 p3 [b] else if p2 a b then [] else [a, b])"
| "strip p1 p2 p3 [a] = (if p1 a then [] else [a])"
| "strip p1 p2 p3 [] = []"

inductive whiteSpaces ::
  "(char \<Rightarrow> bool) \<Rightarrow> (char \<Rightarrow> char \<Rightarrow> bool) \<Rightarrow> (char \<Rightarrow> char \<Rightarrow> char \<Rightarrow> bool) \<Rightarrow> string \<Rightarrow> bool"
  for p1 p2 p3 where
  none: "whiteSpaces p1 p2 p3 []"
| one: "p1 a \<Longrightarrow> whiteSpaces p1 p2 p3 s \<Longrightarrow> whiteSpaces p1 p2 p3 (a # s)"
| two: "p2 a b \<Longrightarrow> whiteSpaces p1 p2 p3 s \<Longrightarrow> whiteSpaces p1 p2 p3 (a # b # s)"
| three: "p3 a b c \<Longrightarrow> whiteSpaces p1 p2 p3 s \<Longrightarrow> whiteSpaces p1 p2 p3 (a # b # c # s)"

text \<open>\<^verbatim>\<open>trim\<close>: at the end of the string the bytes of a character are met in reverse.\<close>

definition trimStart :: "string \<Rightarrow> string" where
  "trimStart s = strip isWhiteSpace isWhiteSpace2 isWhiteSpace3 s"

definition trimEnd :: "string \<Rightarrow> string" where
  "trimEnd s =
     rev (strip isWhiteSpace (\<lambda>a b. isWhiteSpace2 b a) (\<lambda>a b c. isWhiteSpace3 c b a) (rev s))"

definition trim :: "string \<Rightarrow> string" where
  "trim s = trimEnd (trimStart s)"

definition startsWithWhiteSpace :: "string \<Rightarrow> bool" where
  "startsWithWhiteSpace s = startsWith isWhiteSpace isWhiteSpace2 isWhiteSpace3 s"

definition endsWithWhiteSpace :: "string \<Rightarrow> bool" where
  "endsWithWhiteSpace s =
     startsWith isWhiteSpace (\<lambda>a b. isWhiteSpace2 b a) (\<lambda>a b c. isWhiteSpace3 c b a) (rev s)"

definition whiteSpaceOnly :: "string \<Rightarrow> bool" where
  "whiteSpaceOnly s = whiteSpaces isWhiteSpace isWhiteSpace2 isWhiteSpace3 s"

text \<open>The lower case of an ASCII letter, and the strings of ASCII characters only.\<close>

definition lowerChar :: "char \<Rightarrow> char" where
  "lowerChar c =
     (let n = (of_char c :: nat) in if 65 \<le> n \<and> n \<le> 90 then char_of (n + 32) else c)"

definition isAscii :: "string \<Rightarrow> bool" where
  "isAscii s = list_all (\<lambda>c. (of_char c :: nat) < 128) s"

text \<open>
  \<^verbatim>\<open>parseInt(x)\<close> with no radix: leading whitespace is skipped, then an optional sign, then
  an optional \<^verbatim>\<open>0x\<close> prefix that selects radix 16, then the longest run of digits of the
  radix. No digit at all gives NaN, which is \<open>None\<close> here; an absent query parameter
  (\<^verbatim>\<open>undefined\<close>) gives NaN as well. Numbers are unbounded integers, which is what the
  route computes as long as every number stays a safe integer (\<open>isSafeInteger\<close>); beyond
  that the arithmetic of the route is floating point and is not modelled.
\<close>

definition digitVal :: "char \<Rightarrow> nat" where
  "digitVal c =
     (let n = (of_char c :: nat) in
      if 48 \<le> n \<and> n \<le> 57 then n - 48
      else if 97 \<le> n \<and> n \<le> 122 then n - 87
      else if 65 \<le> n \<and> n \<le> 90 then n - 55
      else 36)"

fun parseDigits :: "nat \<Rightarrow> string \<Rightarrow> nat list" where
  "parseDigits radix [] = []"
| "parseDigits radix (c # cs) =
     (if digitVal c < radix then digitVal c # parseDigits radix cs else [])"

definition digitsValue :: "nat \<Rightarrow> nat list \<Rightarrow> nat" where
  "digitsValue radix ds = foldl (\<lambda>a d. a * radix + d) 0 ds"

fun stripSign :: "string \<Rightarrow> bool \<times> string" where
  "stripSign [] = (False, [])"
| "stripSign (c # cs) =
     (if c = CHR ''-'' then (True, cs) else if c = CHR ''+'' then (False, cs) else (False, c # cs))"

fun stripPrefix :: "string \<Rightarrow> nat \<times> string" where
  "stripPrefix (a # b # cs) =
     (if a = CHR ''0'' \<and> (b = CHR ''x'' \<or> b = CHR ''X'') then (16, cs) else (10, a # b # cs))"
| "stripPrefix cs = (10, cs)"

definition parseInt :: "string option \<Rightarrow> int option" where
  "parseInt x =
     (case x of
        None \<Rightarrow> None
      | Some str \<Rightarrow>
          (let (neg, s1) = stripSign (trimStart str);
               (radix, s2) = stripPrefix s1;
               ds = parseDigits radix s2
           in if ds = [] then None
              else Some ((if neg then - 1 else 1) * int (digitsValue radix ds))))"


text \<open>\<^verbatim>\<open>n || d\<close> on a number: NaN and 0 are falsy.\<close>

definition orDefault :: "int option \<Rightarrow> int \<Rightarrow> int" where
  "orDefault n d = (case n of None \<Rightarrow> d | Some v \<Rightarrow> if v = 0 then d else v)"

text \<open>The decimal rendering of an integer inside a template literal.\<close>

fun showNat :: "nat \<Rightarrow> string" where
  "showNat n = (if n < 10 then [char_of (48 + n)] else showNat (n div 10) @ [char_of (48 + n mod 10)])"

declare showNat.simps [simp del]

definition showInt :: "int \<Rightarrow> string" where
  "showInt i = (if i < 0 then CHR ''-'' # showNat (nat (- i)) else showNat (nat i))"

text \<open>\<^verbatim>\<open>Math.ceil(total / limit)\<close>.\<close>

definition ceilDiv :: "int \<Rightarrow> int \<Rightarrow> int" where
  "ceilDiv n d = \<lceil>real_of_int n / real_of_int d\<rceil>"

section \<open>Data model\<close>

text \<open>
  A user document (\<^verbatim>\<open>src/models/User.js\<close>, with \<^verbatim>\<open>timestamps: true\<close>). \<open>uid\<close> is the
  \<^verbatim>\<open>_id\<close> of the document. The \<open>password\<close> field is optional because the routes build
  objects without it (\<^verbatim>\<open>select('-password')\<close>, \<^verbatim>\<open>delete userCache.password\<close>); a stored
  document always has one.
\<close>

record user =
  uid :: nat
  userName :: string
  accountNumber :: string
  emailAddress :: string
  identityNumber :: string
  password :: "string option"
  createdAt :: nat
  updatedAt :: nat

text \<open>The JSON request body; a field that is not sent is \<open>None\<close>.\<close>

record body =
  req_userName :: "string option"
  req_accountNumber :: "string option"
  req_emailAddress :: "string option"
  req_identityNumber :: "string option"
  req_password :: "string option"

record pagination =
  currentPage :: int
  totalPages :: int
  totalItems :: int
  itemsPerPage :: int

datatype error = RedisError | ValidationError | DuplicateKey | BcryptError | SkipError | TypeError

text \<open>The driver's \<^verbatim>\<open>error.code\<close>: 11000 for a unique index violation, none otherwise.\<close>

fun code :: "error \<Rightarrow> nat option" where
  "code DuplicateKey = Some 11000"
| "code _ = None"

text \<open>
  The JSON values the routes send and cache. \<open>UsersJson us None\<close> is \<^verbatim>\<open>{users}\<close>,
  \<open>UsersJson us (Some p)\<close> is \<^verbatim>\<open>{users, pagination}\<close>, \<open>MessageJson m\<close> is
  \<^verbatim>\<open>{message}\<close>, \<open>MessageErrorJson m e\<close> is \<^verbatim>\<open>{message, error: error.message}\<close> and
  \<open>ErrorsJson\<close> is \<^verbatim>\<open>{errors: errors.array()}\<close>.
\<close>

datatype json =
    UsersJson "user list" "pagination option"
  | UserJson user
  | MessageJson string
  | MessageErrorJson string error
  | ErrorsJson "string list"

record response =
  status :: nat
  payload :: json

definition json :: "json \<Rightarrow> response" where
  "json v = \<lparr>status = 200, payload = v\<rparr>"

definition status_json :: "nat \<Rightarrow> json \<Rightarrow> response" where
  "status_json n v = \<lparr>status = n, payload = v\<rparr>"

text \<open>
  What the routes need from their surroundings: the \<^verbatim>\<open>isEmail\<close> validator of
  express-validator, \<^verbatim>\<open>bcrypt.hash(_, 10)\<close>, the Unicode case mapping of
  \<^verbatim>\<open>String.prototype.toLowerCase\<close> on strings that are not pure ASCII, the clock behind the
  timestamps and the \<^verbatim>\<open>_id\<close> the driver generates for a new document.
\<close>

record env =
  isEmail :: "string \<Rightarrow> bool"
  hash :: "string \<Rightarrow> string"
  lowerCase :: "string \<Rightarrow> string"
  now :: nat
  new_id :: nat

text \<open>
  \<^verbatim>\<open>String.prototype.toLowerCase\<close>: on a string of ASCII characters it maps the letters A
  to Z; on any other string it is the case mapping of the platform, whatever that does.
\<close>

definition toLowerCase :: "env \<Rightarrow> string \<Rightarrow> string" where
  "toLowerCase e s = (if isAscii s then map lowerChar s else lowerCase e s)"

section \<open>The cache (Redis client)\<close>

text \<open>
  The cache maps a key to a JSON value and an optional expiry in seconds (\<open>None\<close>: the
  entry never expires). \<^verbatim>\<open>JSON.stringify\<close> on write and \<^verbatim>\<open>JSON.parse\<close> on read are
  folded into the stored value; a stored string is never empty, so the truthiness test of
  a cached string is the test for presence. \<open>failing\<close> lists the commands that currently
  reject: each client call is awaited inside the route's \<^verbatim>\<open>try\<close>, so a rejection is a
  thrown error.
\<close>

datatype cache_op = OpGet | OpSet | OpSetEx | OpDel | OpKeys

type_synonym entry = "json \<times> nat option"

record redis =
  entries :: "(string \<times> entry) list"
  failing :: "cache_op set"

definition redis_get :: "string \<Rightarrow> redis \<Rightarrow> error + json option" where
  "redis_get k r =
     (if OpGet \<in> failing r then Inl RedisError
      else Inr (map_option fst (map_of (entries r) k)))"

definition redis_set :: "string \<Rightarrow> json \<Rightarrow> redis \<Rightarrow> error + redis" where
  "redis_set k v r =
     (if OpSet \<in> failing r then Inl RedisError
      else Inr (r\<lparr>entries := AList.update k (v, None) (entries r)\<rparr>))"

definition redis_setEx :: "string \<Rightarrow> nat \<Rightarrow> json \<Rightarrow> redis \<Rightarrow> error + redis" where
  "redis_setEx k ttl v r =
     (if OpSetEx \<in> failing r then Inl RedisError
      else Inr (r\<lparr>entries := AList.update k (v, Some ttl) (entries r)\<rparr>))"

definition redis_del :: "string list \<Rightarrow> redis \<Rightarrow> error + redis" where
  "redis_del ks r =
     (if OpDel \<in> failing r then Inl RedisError
      else Inr (r\<lparr>entries := filter (\<lambda>p. fst p \<notin> set ks) (entries r)\<rparr>))"

text \<open>\<^verbatim>\<open>keys('users:list:*')\<close>: the keys that start with \<^verbatim>\<open>users:list:\<close>.\<close>

definition isListKey :: "string \<Rightarrow> bool" where
  "isListKey k = prefix ''users:list:'' k"

definition redis_keys :: "redis \<Rightarrow> error + string list" where
  "redis_keys r =
     (if OpKeys \<in> failing r then Inl RedisError
      else Inr (filter isListKey (map fst (entries r))))"

definition accountKey :: "string \<Rightarrow> string" where
  "accountKey a = ''user:'' @ a"

definition identityKey :: "string \<Rightarrow> string" where
  "identityKey i = ''user:identity:'' @ i"

definition listKey :: "int \<Rightarrow> int \<Rightarrow> string" where
  "listKey page limit = ''users:list:'' @ showInt page @ '':'' @ showInt limit"

section \<open>The record store (Mongoose model \<^verbatim>\<open>User\<close>)\<close>

text \<open>
  The collection is the list of its documents in insertion order. The operations below are
  the Mongoose calls the routes make, with the schema's setters (\<^verbatim>\<open>trim\<close> on
  \<^verbatim>\<open>userName\<close>; \<^verbatim>\<open>trim\<close> and \<^verbatim>\<open>lowercase\<close> on \<^verbatim>\<open>emailAddress\<close>), its \<^verbatim>\<open>required\<close>
  validators and its unique indexes. Mongoose applies the setters of a path when a document
  is built, when an update is cast and when a query filter is cast. The store itself is
  taken to be reachable, and an id in a request path to be a well-formed id: only the
  errors below are modelled.
\<close>

type_synonym store = "user list"

definition castUserName :: "string \<Rightarrow> string" where
  "castUserName v = trim v"

text \<open>
  The two setters of \<^verbatim>\<open>emailAddress\<close>. The case mapping leaves white space alone and
  makes none, so the order in which Mongoose runs them does not show; the model trims first.
\<close>

definition castEmailAddress :: "env \<Rightarrow> string \<Rightarrow> string" where
  "castEmailAddress e v = toLowerCase e (trim v)"

definition selectNoPassword :: "user \<Rightarrow> user" where
  "selectNoPassword u = u\<lparr>password := None\<rparr>"

text \<open>\<^verbatim>\<open>sort({ createdAt: -1 })\<close>; documents with equal timestamps keep their insertion order.\<close>

definition sortCreatedDesc :: "store \<Rightarrow> user list" where
  "sortCreatedDesc s = sort_key (\<lambda>u. - int (createdAt u)) s"

definition find_all :: "store \<Rightarrow> user list" where
  "find_all s = map selectNoPassword (sortCreatedDesc s)"

text \<open>
  \<^verbatim>\<open>find().select('-password').skip(skip).limit(limit).sort({ createdAt: -1 })\<close>: the server
  rejects a negative skip; the driver sends a negative limit as its absolute value, and a
  limit of 0 is no limit.
\<close>

definition limitDocs :: "int \<Rightarrow> user list \<Rightarrow> user list" where
  "limitDocs limit xs = (if limit = 0 then xs else take (nat \<bar>limit\<bar>) xs)"

definition find_page :: "int \<Rightarrow> int \<Rightarrow> store \<Rightarrow> error + user list" where
  "find_page skip limit s =
     (if skip < 0 then Inl SkipError
      else Inr (map selectNoPassword (limitDocs limit (drop (nat skip) (sortCreatedDesc s)))))"

definition countDocuments :: "store \<Rightarrow> int" where
  "countDocuments s = int (length s)"

definition findOne :: "(user \<Rightarrow> bool) \<Rightarrow> store \<Rightarrow> user option" where
  "findOne p s = find p s"

definition findById :: "nat \<Rightarrow> store \<Rightarrow> user option" where
  "findById i s = find (\<lambda>u. uid u = i) s"

text \<open>\<^verbatim>\<open>new User({...})\<close>: the setters run, the driver's \<^verbatim>\<open>_id\<close> and the timestamps are set.\<close>

definition newUser :: "env \<Rightarrow> string \<Rightarrow> string \<Rightarrow> string \<Rightarrow> string \<Rightarrow> string \<Rightarrow> user" where
  "newUser e un an ea idn pw =
     \<lparr>uid = new_id e, userName = castUserName un, accountNumber = an,
      emailAddress = castEmailAddress e ea, identityNumber = idn, password = Some pw,
      createdAt = now e, updatedAt = now e\<rparr>"

text \<open>The \<^verbatim>\<open>required\<close> validators: a required string must be present and not empty.\<close>

definition validateDoc :: "user \<Rightarrow> bool" where
  "validateDoc u =
     (userName u \<noteq> [] \<and> accountNumber u \<noteq> [] \<and> emailAddress u \<noteq> [] \<and>
      identityNumber u \<noteq> [] \<and> (case password u of None \<Rightarrow> False | Some p \<Rightarrow> p \<noteq> []))"

text \<open>The unique indexes on \<^verbatim>\<open>_id\<close>, \<^verbatim>\<open>accountNumber\<close>, \<^verbatim>\<open>emailAddress\<close>, \<^verbatim>\<open>identityNumber\<close>.\<close>

definition indexClash :: "user \<Rightarrow> store \<Rightarrow> bool" where
  "indexClash u s =
     list_ex (\<lambda>v. uid v = uid u \<or> accountNumber v = accountNumber u \<or>
                   emailAddress v = emailAddress u \<or> identityNumber v = identityNumber u) s"

definition save :: "user \<Rightarrow> store \<Rightarrow> error + store" where
  "save u s =
     (if \<not> validateDoc u then Inl ValidationError
      else if indexClash u s then Inl DuplicateKey
      else Inr (s @ [u]))"

text \<open>
  \<^verbatim>\<open>findByIdAndUpdate(userId, { $set: updates }, { new: true, runValidators: true })\<close>.
  Only the paths present in \<open>updates\<close> are set, after their setters; \<^verbatim>\<open>updatedAt\<close> is
  refreshed. The validators run on the paths that are set, and the unique indexes are
  checked for them against the other documents.
\<close>

definition setOr :: "string option \<Rightarrow> string \<Rightarrow> string" where
  "setOr v old = (case v of None \<Rightarrow> old | Some x \<Rightarrow> x)"

definition castUpdate :: "env \<Rightarrow> body \<Rightarrow> body" where
  "castUpdate e b =
     b\<lparr>req_userName := map_option castUserName (req_userName b),
       req_emailAddress := map_option (castEmailAddress e) (req_emailAddress b)\<rparr>"

definition applySet :: "env \<Rightarrow> body \<Rightarrow> user \<Rightarrow> user" where
  "applySet e b u =
     u\<lparr>userName := setOr (req_userName b) (userName u),
       accountNumber := setOr (req_accountNumber b) (accountNumber u),
       emailAddress := setOr (req_emailAddress b) (emailAddress u),
       identityNumber := setOr (req_identityNumber b) (identityNumber u),
       password := (case req_password b of None \<Rightarrow> password u | Some p \<Rightarrow> Some p),
       updatedAt := now e\<rparr>"

definition validateUpdate :: "body \<Rightarrow> bool" where
  "validateUpdate b =
     (req_userName b \<noteq> Some [] \<and> req_accountNumber b \<noteq> Some [] \<and>
      req_emailAddress b \<noteq> Some [] \<and> req_identityNumber b \<noteq> Some [] \<and>
      req_password b \<noteq> Some [])"

definition updateClash :: "nat \<Rightarrow> body \<Rightarrow> store \<Rightarrow> bool" where
  "updateClash i b s =
     list_ex (\<lambda>v. uid v \<noteq> i \<and>
                  (req_accountNumber b = Some (accountNumber v) \<or>
                   req_emailAddress b = Some (emailAddress v) \<or>
                   req_identityNumber b = Some (identityNumber v))) s"

fun replaceById :: "nat \<Rightarrow> user \<Rightarrow> store \<Rightarrow> store" where
  "replaceById i u' [] = []"
| "replaceById i u' (v # vs) = (if uid v = i then u' # vs else v # replaceById i u' vs)"

definition findByIdAndUpdate :: "env \<Rightarrow> nat \<Rightarrow> body \<Rightarrow> store \<Rightarrow> error + store \<times> user option" where
  "findByIdAndUpdate e i updates s =
     (let b = castUpdate e updates in
      if \<not> validateUpdate b then Inl ValidationError
      else case findById i s of
             None \<Rightarrow> Inr (s, None)
           | Some u \<Rightarrow>
               if updateClash i b s then Inl DuplicateKey
               else Inr (replaceById i (applySet e b u) s, Some (applySet e b u)))"

definition deleteOne :: "nat \<Rightarrow> store \<Rightarrow> store" where
  "deleteOne i s = filter (\<lambda>u. uid u \<noteq> i) s"

section \<open>Validation middleware\<close>

text \<open>
  \<^verbatim>\<open>validateUser\<close>: the chains sanitise (\<^verbatim>\<open>trim\<close>) and validate the body, in the order
  they are listed; a field that is not sent is the empty string to a sanitiser or a
  validator. The result is the list of error messages and the sanitised body.
\<close>

definition toString :: "string option \<Rightarrow> string" where
  "toString v = (case v of None \<Rightarrow> [] | Some x \<Rightarrow> x)"

definition validateUser :: "env \<Rightarrow> body \<Rightarrow> string list \<times> body" where
  "validateUser e b =
     (let un = trim (toString (req_userName b));
          an = trim (toString (req_accountNumber b));
          idn = trim (toString (req_identityNumber b))
      in ((if un = [] then [''Username is required''] else []) @
          (if an = [] then [''Account number is required''] else []) @
          (if isEmail e (toString (req_emailAddress b)) then []
           else [''Valid email address is required'']) @
          (if idn = [] then [''Identity number is required''] else []),
          b\<lparr>req_userName := Some un, req_accountNumber := Some an,
            req_identityNumber := Some idn\<rparr>))"

text \<open>\<^verbatim>\<open>validateUserUpdate\<close>: every chain is \<^verbatim>\<open>optional()\<close>, so a field that is not sent is
  neither sanitised nor validated.\<close>

definition validateUserUpdate :: "env \<Rightarrow> body \<Rightarrow> string list \<times> body" where
  "validateUserUpdate e b =
     (let un = map_option trim (req_userName b);
          an = map_option trim (req_accountNumber b);
          idn = map_option trim (req_identityNumber b)
      in ((if un = Some [] then [''Username cannot be empty if provided''] else []) @
          (if an = Some [] then [''Account number cannot be empty if provided''] else []) @
          (case req_emailAddress b of
             None \<Rightarrow> []
           | Some ea \<Rightarrow>
               if isEmail e ea then [] else [''Valid email address is required if provided'']) @
          (if idn = Some [] then [''Identity number cannot be empty if provided''] else []),
          b\<lparr>req_userName := un, req_accountNumber := an, req_identityNumber := idn\<rparr>))"

section \<open>The routes\<close>

definition serverError :: response where
  "serverError = status_json 500 (MessageJson ''Server error'')"

definition notFound :: response where
  "notFound = status_json 404 (MessageJson ''User not found'')"

subsection \<open>\<^verbatim>\<open>router.get('/')\<close>\<close>

text \<open>\<^verbatim>\<open>parseInt(req.query.page) || 1\<close> and \<^verbatim>\<open>parseInt(req.query.limit) || 10\<close>.\<close>

definition pageParam :: "string option \<Rightarrow> int" where
  "pageParam q_page = orDefault (parseInt q_page) 1"

definition limitParam :: "string option \<Rightarrow> int" where
  "limitParam q_limit = orDefault (parseInt q_limit) 10"

definition get_users ::
  "string option \<Rightarrow> string option \<Rightarrow> string option \<Rightarrow> store \<Rightarrow> redis \<Rightarrow> response \<times> redis" where
  "get_users q_paginate q_page q_limit s r =
     (let paginate = (parseInt q_paginate \<noteq> Some 0) in
      if \<not> paginate then
        (let cacheKey = ''users:list:all'' in
         case redis_get cacheKey r of
           Inl err \<Rightarrow> (serverError, r)
         | Inr (Some cachedData) \<Rightarrow> (json cachedData, r)
         | Inr None \<Rightarrow>
             (let users = find_all s in
              case redis_setEx cacheKey 300 (UsersJson users None) r of
                Inl err \<Rightarrow> (serverError, r)
              | Inr r' \<Rightarrow> (json (UsersJson users None), r')))
      else
        (let page = pageParam q_page;
             limit = limitParam q_limit;
             skip = (page - 1) * limit;
             cacheKey = listKey page limit
         in case redis_get cacheKey r of
              Inl err \<Rightarrow> (serverError, r)
            | Inr (Some cachedData) \<Rightarrow> (json cachedData, r)
            | Inr None \<Rightarrow>
                (case find_page skip limit s of
                   Inl err \<Rightarrow> (serverError, r)
                 | Inr users \<Rightarrow>
                     (let total = countDocuments s;
                          response = UsersJson users
                            (Some \<lparr>currentPage = page, totalPages = ceilDiv total limit,
                                   totalItems = total, itemsPerPage = limit\<rparr>)
                      in case redis_setEx cacheKey 300 response r of
                           Inl err \<Rightarrow> (serverError, r)
                         | Inr r' \<Rightarrow> (json response, r')))))"

subsection \<open>\<^verbatim>\<open>router.post('/')\<close>\<close>

text \<open>Invalidate the list caches: \<^verbatim>\<open>keys('users:list:*')\<close>, then \<^verbatim>\<open>del\<close> when there are any.\<close>

definition invalidateLists :: "redis \<Rightarrow> error + redis" where
  "invalidateLists r =
     (case redis_keys r of
        Inl err \<Rightarrow> Inl err
      | Inr cacheKeys \<Rightarrow> if length cacheKeys > 0 then redis_del cacheKeys r else Inr r)"

text \<open>The \<^verbatim>\<open>catch\<close> of the create route.\<close>

definition createError :: "error \<Rightarrow> response" where
  "createError err =
     (if code err = Some 11000 then status_json 400 (MessageJson ''Duplicate entry found'')
      else serverError)"

definition post_user :: "env \<Rightarrow> body \<Rightarrow> store \<Rightarrow> redis \<Rightarrow> response \<times> store \<times> redis" where
  "post_user e reqBody s r =
     (let (errors, b) = validateUser e reqBody in
      if errors \<noteq> [] then (status_json 400 (ErrorsJson errors), s, r)
      else
        case req_password b of
          None \<Rightarrow> (createError BcryptError, s, r)
        | Some pw \<Rightarrow>
            (let accountNumber = toString (req_accountNumber b);
                 identityNumber = toString (req_identityNumber b);
                 user = newUser e (toString (req_userName b)) accountNumber
                          (toString (req_emailAddress b)) identityNumber (hash e pw)
             in case save user s of
                  Inl err \<Rightarrow> (createError err, s, r)
                | Inr s' \<Rightarrow>
                    (let userCache = selectNoPassword user in
                     case redis_set (accountKey accountNumber) (UserJson userCache) r of
                       Inl err \<Rightarrow> (createError err, s', r)
                     | Inr r1 \<Rightarrow>
                         (case redis_set (identityKey identityNumber) (UserJson userCache) r1 of
                            Inl err \<Rightarrow> (createError err, s', r1)
                          | Inr r2 \<Rightarrow>
                              (case invalidateLists r2 of
                                 Inl err \<Rightarrow> (createError err, s', r2)
                               | Inr r3 \<Rightarrow>
                                   (status_json 201 (MessageJson ''User created successfully''),
                                    s', r3))))))"

subsection \<open>\<^verbatim>\<open>router.get('/account/:accountNumber')\<close> and \<^verbatim>\<open>router.get('/identity/:identityNumber')\<close>\<close>

definition get_account :: "string \<Rightarrow> store \<Rightarrow> redis \<Rightarrow> response \<times> redis" where
  "get_account param s r =
     (case redis_get (accountKey param) r of
        Inl err \<Rightarrow> (serverError, r)
      | Inr (Some cachedUser) \<Rightarrow> (json cachedUser, r)
      | Inr None \<Rightarrow>
          (case findOne (\<lambda>u. accountNumber u = param) s of
             None \<Rightarrow> (notFound, r)
           | Some u \<Rightarrow>
               (let user = selectNoPassword u in
                case redis_set (accountKey param) (UserJson user) r of
                  Inl err \<Rightarrow> (serverError, r)
                | Inr r' \<Rightarrow> (json (UserJson user), r'))))"

definition get_identity :: "string \<Rightarrow> store \<Rightarrow> redis \<Rightarrow> response \<times> redis" where
  "get_identity param s r =
     (case redis_get (identityKey param) r of
        Inl err \<Rightarrow> (serverError, r)
      | Inr (Some cachedUser) \<Rightarrow> (json cachedUser, r)
      | Inr None \<Rightarrow>
          (case findOne (\<lambda>u. identityNumber u = param) s of
             None \<Rightarrow> (notFound, r)
           | Some u \<Rightarrow>
               (let user = selectNoPassword u in
                case redis_set (identityKey param) (UserJson user) r of
                  Inl err \<Rightarrow> (serverError, r)
                | Inr r' \<Rightarrow> (json (UserJson user), r'))))"

subsection \<open>\<^verbatim>\<open>router.put('/:id')\<close>\<close>

text \<open>A string tested as a condition: \<^verbatim>\<open>undefined\<close> and the empty string are falsy.\<close>

definition truthy :: "string option \<Rightarrow> bool" where
  "truthy v = (v \<noteq> None \<and> v \<noteq> Some [])"

text \<open>
  The filter of the explicit uniqueness check: \<^verbatim>\<open>_id: { $ne: userId }\<close> and an \<^verbatim>\<open>$or\<close>
  with one condition for each of the three fields that is truthy in the update.
\<close>

definition conflictFilter :: "env \<Rightarrow> nat \<Rightarrow> body \<Rightarrow> user \<Rightarrow> bool" where
  "conflictFilter e userId updates v =
     (uid v \<noteq> userId \<and>
      ((truthy (req_accountNumber updates) \<and>
          req_accountNumber updates = Some (accountNumber v)) \<or>
       (truthy (req_emailAddress updates) \<and>
          map_option (castEmailAddress e) (req_emailAddress updates) = Some (emailAddress v)) \<or>
       (truthy (req_identityNumber updates) \<and>
          req_identityNumber updates = Some (identityNumber v))))"

definition conflictResponse :: response where
  "conflictResponse =
     status_json 400 (MessageJson ''Account number, email, or identity number already in use'')"

text \<open>The \<^verbatim>\<open>catch\<close> of the update route echoes the error.\<close>

definition updateError :: "error \<Rightarrow> response" where
  "updateError err = status_json 500 (MessageErrorJson ''Server error'' err)"

text \<open>
  The handler. Both \<^verbatim>\<open>del\<close> calls build their key with the \<^verbatim>\<open>user:\<close> template, the
  first from \<^verbatim>\<open>updatedUser.accountNumber\<close> and the second from
  \<^verbatim>\<open>updatedUser.identityNumber\<close>; the response is the updated document as the store
  returned it.
\<close>

definition put_user ::
  "env \<Rightarrow> nat \<Rightarrow> body \<Rightarrow> store \<Rightarrow> redis \<Rightarrow> response \<times> store \<times> redis" where
  "put_user e userId updates s r =
     (case findById userId s of
        None \<Rightarrow> (notFound, s, r)
      | Some user \<Rightarrow>
          if (truthy (req_accountNumber updates) \<or> truthy (req_emailAddress updates) \<or>
              truthy (req_identityNumber updates)) \<and>
             findOne (conflictFilter e userId updates) s \<noteq> None
          then (conflictResponse, s, r)
          else
            (case findByIdAndUpdate e userId updates s of
               Inl err \<Rightarrow> (updateError err, s, r)
             | Inr (s', None) \<Rightarrow> (updateError TypeError, s', r)
             | Inr (s', Some updatedUser) \<Rightarrow>
                 (case redis_del [''user:'' @ accountNumber updatedUser] r of
                    Inl err \<Rightarrow> (updateError err, s', r)
                  | Inr r1 \<Rightarrow>
                      (case redis_del [''user:'' @ identityNumber updatedUser] r1 of
                         Inl err \<Rightarrow> (updateError err, s', r1)
                       | Inr r2 \<Rightarrow> (json (UserJson updatedUser), s', r2)))))"

text \<open>The route: the validation middleware, then the handler on the sanitised body.\<close>

definition put_route ::
  "env \<Rightarrow> nat \<Rightarrow> body \<Rightarrow> store \<Rightarrow> redis \<Rightarrow> response \<times> store \<times> redis" where
  "put_route e userId reqBody s r =
     (let (errors, b) = validateUserUpdate e reqBody in
      if errors \<noteq> [] then (status_json 400 (ErrorsJson errors), s, r)
      else put_user e userId b s r)"

subsection \<open>\<^verbatim>\<open>router.delete('/:id')\<close>\<close>

definition delete_user :: "nat \<Rightarrow> store \<Rightarrow> redis \<Rightarrow> response \<times> store \<times> redis" where
  "delete_user i s r =
     (case findById i s of
        None \<Rightarrow> (notFound, s, r)
      | Some user \<Rightarrow>
          (case redis_del [accountKey (accountNumber user)] r of
             Inl err \<Rightarrow> (serverError, s, r)
           | Inr r1 \<Rightarrow>
               (case redis_del [identityKey (identityNumber user)] r1 of
                  Inl err \<Rightarrow> (serverError, s, r1)
                | Inr r2 \<Rightarrow>
                    (case invalidateLists r2 of
                       Inl err \<Rightarrow> (serverError, s, r2)
                     | Inr r3 \<Rightarrow>
                         (json (MessageJson ''User deleted successfully''), deleteOne i s, r3)))))"

section \<open>Auxiliary definitions\<close>

text \<open>
  The document the create route builds for a request body: the fields as the middleware
  sanitised them, cast by the schema, with the hashed password \<open>hash e pw\<close>.
\<close>

definition createdUser :: "env \<Rightarrow> body \<Rightarrow> string \<Rightarrow> user" where
  "createdUser e b pw =
     newUser e (trim (toString (req_userName b))) (trim (toString (req_accountNumber b)))
       (toString (req_emailAddress b)) (trim (toString (req_identityNumber b))) (hash e pw)"

section \<open>Sample data\<close>

definition env0 :: env where
  "env0 = \<lparr>isEmail = (\<lambda>x. CHR ''@'' \<in> set x \<and> CHR '' '' \<notin> set x),
           hash = (\<lambda>p. ''$2a$10$'' @ p), lowerCase = (\<lambda>x. x), now = 100, new_id = 3\<rparr>"

definition alice :: user where
  "alice = \<lparr>uid = 1, userName = ''Alice'', accountNumber = ''A1'',
            emailAddress = ''alice@example.com'', identityNumber = ''I1'',
            password = Some ''$2a$10$secret'', createdAt = 10, updatedAt = 10\<rparr>"

definition bob :: user where
  "bob = \<lparr>uid = 2, userName = ''Bob'', accountNumber = ''A2'',
          emailAddress = ''bob@example.com'', identityNumber = ''I2'',
          password = Some ''$2a$10$hunter2'', createdAt = 20, updatedAt = 20\<rparr>"

definition noBody :: body where
  "noBody = \<lparr>req_userName = None, req_accountNumber = None, req_emailAddress = None,
             req_identityNumber = None, req_password = None\<rparr>"

definition emptyRedis :: redis where
  "emptyRedis = \<lparr>entries = [], failing = {}\<rparr>"

definition carolBody :: body where
  "carolBody = \<lparr>req_userName = Some ''Carol'', req_accountNumber = Some ''A3'',
                req_emailAddress = Some ''Carol@Example.COM'', req_identityNumber = Some ''I3'',
                req_password = Some ''pw''\<rparr>"

definition carol :: user where
  "carol = \<lparr>uid = 3, userName = ''Carol'', accountNumber = ''A3'',
            emailAddress = ''carol@example.com'', identityNumber = ''I3'',
            password = Some ''$2a$10$pw'', createdAt = 100, updatedAt = 100\<rparr>"

text \<open>A cache that holds the unpaginated list of a store with Alice only.\<close>

definition listCached :: redis where
  "listCached =
     \<lparr>entries = [(''users:list:all'', (UsersJson [selectNoPassword alice] None, Some 300))],
      failing = {}\<rparr>"

text \<open>A second create request whose email address differs from Carol's in letter case only.\<close>

definition daveBody :: body where
  "daveBody = \<lparr>req_userName = Some ''Dave'', req_accountNumber = Some ''A4'',
               req_emailAddress = Some ''CAROL@example.com'', req_identityNumber = Some ''I4'',
               req_password = Some ''pw4''\<rparr>"

text \<open>A cache that holds both point entries of Alice and an unpaginated list.\<close>

definition aliceCached :: redis where
  "aliceCached =
     \<lparr>entries = [(''user:A1'', (UserJson (selectNoPassword alice), None)),
                 (''user:identity:I1'', (UserJson (selectNoPassword alice), None)),
                 (''users:list:all'', (UsersJson [selectNoPassword alice] None, Some 300))],
      failing = {}\<rparr>"

text \<open>An update that sets the user name only.\<close>

definition renameBody :: body where
  "renameBody = noBody\<lparr>req_userName := Some ''Alicia''\<rparr>"

text \<open>A user whose account number is \<^verbatim>\<open>identity:\<close> followed by her identity number.\<close>

definition mallory :: user where
  "mallory = \<lparr>uid = 7, userName = ''Mallory'', accountNumber = ''identity:7'',
              emailAddress = ''mallory@example.com'', identityNumber = ''7'',
              password = Some ''$2a$10$m'', createdAt = 70, updatedAt = 70\<rparr>"

text \<open>The cache key of a list request.\<close>

definition listCacheKey :: "string option \<Rightarrow> string option \<Rightarrow> string option \<Rightarrow> string" where
  "listCacheKey q_paginate q_page q_limit =
     (if parseInt q_paginate = Some 0 then ''users:list:all''
      else listKey (pageParam q_page) (limitParam q_limit))"

text \<open>The first page of an empty store, and a cache that holds it.\<close>

definition emptyPage :: json where
  "emptyPage = UsersJson []
     (Some \<lparr>currentPage = 1, totalPages = 0, totalItems = 0, itemsPerPage = 10\<rparr>)"

definition stalePage :: redis where
  "stalePage = \<lparr>entries = [(''users:list:1:10'', (emptyPage, Some 300))], failing = {}\<rparr>"

text \<open>A cache whose \<^verbatim>\<open>get\<close> command fails.\<close>

definition downRedis :: redis where
  "downRedis = \<lparr>entries = [], failing = {OpGet}\<rparr>"

text \<open>Carol's create request with an EM SPACE (U+2003) in front of the email address.\<close>

definition paddedBody :: body where
  "paddedBody =
     carolBody\<lparr>req_emailAddress := Some ([CHR 0xE2, CHR 0x80, CHR 0x83] @ ''Carol@Example.COM'')\<rparr>"

section \<open>String lemmas\<close>

lemma strip_not_startsWith: "\<not> startsWith p1 p2 p3 (strip p1 p2 p3 s)"
  by (induction p1 p2 p3 s rule: strip.induct) auto

lemma strip_id: "\<not> startsWith p1 p2 p3 s \<Longrightarrow> strip p1 p2 p3 s = s"
  by (cases "(p1, p2, p3, s)" rule: strip.cases) auto

lemma startsWith_append: "startsWith p1 p2 p3 s \<Longrightarrow> startsWith p1 p2 p3 (s @ t)"
  by (cases "(p1, p2, p3, s)" rule: startsWith.cases;
      cases "(p1, p2, p3, t)" rule: startsWith.cases) auto

lemma whiteSpaces_append:
  "whiteSpaces p1 p2 p3 s \<Longrightarrow> whiteSpaces p1 p2 p3 t \<Longrightarrow> whiteSpaces p1 p2 p3 (s @ t)"
  by (induction rule: whiteSpaces.induct) (auto intro: whiteSpaces.intros)

lemma strip_split: "\<exists>pre. s = pre @ strip p1 p2 p3 s \<and> whiteSpaces p1 p2 p3 pre"
proof (induction p1 p2 p3 s rule: strip.induct)
  case (1 p1 p2 p3 a b c s)
  consider (w1) "p1 a" | (w2) "\<not> p1 a" "p2 a b" | (w3) "\<not> p1 a" "\<not> p2 a b" "p3 a b c"
    | (w0) "\<not> p1 a" "\<not> p2 a b" "\<not> p3 a b c" by blast
  then show ?case
  proof cases
    case w1
    with 1(1) obtain pre where "b # c # s = pre @ strip p1 p2 p3 (b # c # s)"
      "whiteSpaces p1 p2 p3 pre" by blast
    with w1 have "a # b # c # s = (a # pre) @ strip p1 p2 p3 (a # b # c # s)"
      "whiteSpaces p1 p2 p3 (a # pre)" by (simp_all add: whiteSpaces.one)
    then show ?thesis by blast
  next
    case w2
    with 1(2) obtain pre where "c # s = pre @ strip p1 p2 p3 (c # s)"
      "whiteSpaces p1 p2 p3 pre" by blast
    with w2 have "a # b # c # s = (a # b # pre) @ strip p1 p2 p3 (a # b # c # s)"
      "whiteSpaces p1 p2 p3 (a # b # pre)" by (simp_all add: whiteSpaces.two)
    then show ?thesis by blast
  next
    case w3
    with 1(3) obtain pre where "s = pre @ strip p1 p2 p3 s"
      "whiteSpaces p1 p2 p3 pre" by blast
    with w3 have "a # b # c # s = (a # b # c # pre) @ strip p1 p2 p3 (a # b # c # s)"
      "whiteSpaces p1 p2 p3 (a # b # c # pre)" by (simp_all add: whiteSpaces.three)
    then show ?thesis by blast
  next
    case w0
    then have "a # b # c # s = [] @ strip p1 p2 p3 (a # b # c # s)" by simp
    then show ?thesis using whiteSpaces.none by blast
  qed
next
  case (2 p1 p2 p3 a b)
  consider (w1) "p1 a" | (w2) "\<not> p1 a" "p2 a b" | (w0) "\<not> p1 a" "\<not> p2 a b" by blast
  then show ?case
  proof cases
    case w1
    with 2 obtain pre where "[b] = pre @ strip p1 p2 p3 [b]" "whiteSpaces p1 p2 p3 pre"
      by blast
    with w1 have "[a, b] = (a # pre) @ strip p1 p2 p3 [a, b]"
      "whiteSpaces p1 p2 p3 (a # pre)" by (simp_all add: whiteSpaces.one)
    then show ?thesis by blast
  next
    case w2
    then have "[a, b] = [a, b] @ strip p1 p2 p3 [a, b]" "whiteSpaces p1 p2 p3 [a, b]"
      by (simp_all add: whiteSpaces.two whiteSpaces.none)
    then show ?thesis by blast
  next
    case w0
    then have "[a, b] = [] @ strip p1 p2 p3 [a, b]" by simp
    then show ?thesis using whiteSpaces.none by blast
  qed
next
  case (3 p1 p2 p3 a)
  show ?case
  proof (cases "p1 a")
    case True
    then have "[a] = [a] @ strip p1 p2 p3 [a]" "whiteSpaces p1 p2 p3 [a]"
      by (simp_all add: whiteSpaces.one whiteSpaces.none)
    then show ?thesis by blast
  next
    case False
    then have "[a] = [] @ strip p1 p2 p3 [a]" by simp
    then show ?thesis using whiteSpaces.none by blast
  qed
next
  case (4 p1 p2 p3)
  show ?case using whiteSpaces.none by auto
qed

lemma whiteSpaces_rev:
  "whiteSpaces p1 (\<lambda>a b. p2 b a) (\<lambda>a b c. p3 c b a) s \<Longrightarrow> whiteSpaces p1 p2 p3 (rev s)"
proof (induction rule: whiteSpaces.induct)
  case none
  show ?case by (simp add: whiteSpaces.none)
next
  case (one a s)
  have "whiteSpaces p1 p2 p3 [a]" using one(1) by (intro whiteSpaces.intros)
  with one(3) show ?case by (simp add: whiteSpaces_append)
next
  case (two a b s)
  have "whiteSpaces p1 p2 p3 [b, a]" using two(1) by (intro whiteSpaces.intros)
  with two(3) show ?case by (simp add: whiteSpaces_append)
next
  case (three a b c s)
  have "whiteSpaces p1 p2 p3 [c, b, a]" using three(1) by (intro whiteSpaces.intros)
  with three(3) show ?case by (simp add: whiteSpaces_append)
qed

lemma trimStart_split: "\<exists>pre. s = pre @ trimStart s \<and> whiteSpaceOnly pre"
  unfolding trimStart_def whiteSpaceOnly_def by (rule strip_split)

lemma trimEnd_split: "\<exists>post. s = trimEnd s @ post \<and> whiteSpaceOnly post"
proof -
  let ?q2 = "\<lambda>a b. isWhiteSpace2 b a" and ?q3 = "\<lambda>a b c. isWhiteSpace3 c b a"
  from strip_split [of "rev s" isWhiteSpace ?q2 ?q3]
  obtain pre where pre: "rev s = pre @ strip isWhiteSpace ?q2 ?q3 (rev s)"
    "whiteSpaces isWhiteSpace ?q2 ?q3 pre" by blast
  from pre(1) have "rev (rev s) = rev (pre @ strip isWhiteSpace ?q2 ?q3 (rev s))" by simp
  then have "s = trimEnd s @ rev pre" by (simp add: trimEnd_def)
  moreover from pre(2) have "whiteSpaceOnly (rev pre)"
    unfolding whiteSpaceOnly_def by (rule whiteSpaces_rev)
  ultimately show ?thesis by blast
qed

lemma trim_shape:
  "\<exists>pre post. s = pre @ trim s @ post \<and> whiteSpaceOnly pre \<and> whiteSpaceOnly post"
proof -
  from trimStart_split [of s] obtain pre where
    pre: "s = pre @ trimStart s" "whiteSpaceOnly pre" by blast
  from trimEnd_split [of "trimStart s"] obtain post where
    post: "trimStart s = trim s @ post" "whiteSpaceOnly post" by (auto simp: trim_def)
  from pre(1) post(1) have "s = pre @ trim s @ post" by simp
  with pre(2) post(2) show ?thesis by blast
qed

lemma trim_ends: "\<not> startsWithWhiteSpace (trim s) \<and> \<not> endsWithWhiteSpace (trim s)"
proof -
  from trimEnd_split [of "trimStart s"] obtain post where
    post: "trimStart s = trim s @ post" by (auto simp: trim_def)
  have "\<not> startsWithWhiteSpace (trimStart s)"
    unfolding startsWithWhiteSpace_def trimStart_def by (rule strip_not_startsWith)
  with post have "\<not> startsWithWhiteSpace (trim s)"
    unfolding startsWithWhiteSpace_def using startsWith_append by metis
  moreover have "\<not> endsWithWhiteSpace (trim s)"
    unfolding endsWithWhiteSpace_def trim_def trimEnd_def
    by (simp add: strip_not_startsWith)
  ultimately show ?thesis by simp
qed

lemma trim_id: "\<not> startsWithWhiteSpace s \<Longrightarrow> \<not> endsWithWhiteSpace s \<Longrightarrow> trim s = s"
  unfolding startsWithWhiteSpace_def endsWithWhiteSpace_def trim_def trimStart_def trimEnd_def
  by (simp add: strip_id)

lemma trim_idem: "trim (trim s) = trim s"
  using trim_ends [of s] by (simp add: trim_id)

section \<open>Cache lemmas\<close>

lemma map_of_filter_keys:
  "map_of (filter (\<lambda>p. fst p \<notin> set ks) al) k = (if k \<in> set ks then None else map_of al k)"
  by (induction al) auto

lemma redis_del_lookup:
  assumes "redis_del ks r = Inr r'"
  shows "map_of (entries r') k = (if k \<in> set ks then None else map_of (entries r) k)"
    and "failing r' = failing r"
  using assms by (auto simp: redis_del_def map_of_filter_keys split: if_splits)

lemma redis_set_lookup:
  assumes "redis_set key v r = Inr r'"
  shows "map_of (entries r') k = (if k = key then Some (v, None) else map_of (entries r) k)"
    and "failing r' = failing r"
  using assms by (auto simp: redis_set_def update_conv' split: if_splits)

lemma redis_setEx_lookup:
  assumes "redis_setEx key ttl v r = Inr r'"
  shows "map_of (entries r') k = (if k = key then Some (v, Some ttl) else map_of (entries r) k)"
    and "failing r' = failing r"
  using assms by (auto simp: redis_setEx_def update_conv' split: if_splits)

lemma map_of_absent: "k \<notin> fst ` set al \<Longrightarrow> map_of al k = None"
  by (simp add: map_of_eq_None_iff)

lemma invalidateLists_cases:
  assumes "invalidateLists r = Inr r'"
  shows "(list_all (\<lambda>k. \<not> isListKey k) (map fst (entries r)) \<and> r' = r) \<or>
         redis_del (filter isListKey (map fst (entries r))) r = Inr r'"
proof -
  define ks where "ks = filter isListKey (map fst (entries r))"
  have empty: "ks = [] \<longleftrightarrow> list_all (\<lambda>k. \<not> isListKey k) (map fst (entries r))"
    unfolding ks_def by (simp add: filter_empty_conv list_all_iff)
  from assms have "(if length ks > 0 then redis_del ks r else Inr r) = Inr r'"
    unfolding invalidateLists_def redis_keys_def ks_def by (simp split: if_splits)
  then have "(ks = [] \<and> r' = r) \<or> redis_del ks r = Inr r'"
    by (cases "ks = []") auto
  with empty show ?thesis unfolding ks_def by blast
qed

lemma invalidateLists_lookup:
  assumes "invalidateLists r = Inr r'"
  shows "map_of (entries r') k = (if isListKey k then None else map_of (entries r) k)"
    and "failing r' = failing r"
proof -
  let ?ks = "filter isListKey (map fst (entries r))"
  from invalidateLists_cases [OF assms]
  show "map_of (entries r') k = (if isListKey k then None else map_of (entries r) k)"
  proof
    assume none: "list_all (\<lambda>k. \<not> isListKey k) (map fst (entries r)) \<and> r' = r"
    then have "isListKey k \<Longrightarrow> k \<notin> fst ` set (entries r)"
      by (auto simp: list_all_iff)
    with none show ?thesis by (simp add: map_of_absent)
  next
    assume del: "redis_del ?ks r = Inr r'"
    have "isListKey k \<Longrightarrow> k \<notin> set ?ks \<Longrightarrow> map_of (entries r) k = None"
      by (rule map_of_absent) auto
    with redis_del_lookup(1) [OF del, of k] show ?thesis by auto
  qed
  from invalidateLists_cases [OF assms] show "failing r' = failing r"
    by (auto dest: redis_del_lookup(2))
qed

lemma account_not_list [simp]: "\<not> isListKey (accountKey a)"
  by (simp add: isListKey_def accountKey_def)

lemma identity_not_list [simp]: "\<not> isListKey (identityKey a)"
  by (simp add: isListKey_def identityKey_def)

section \<open>The create route\<close>

lemma status_createError: "status (createError err) \<noteq> 201"
  by (simp add: createError_def status_json_def serverError_def)

lemma validateUser_fields:
  "toString (req_userName (snd (validateUser e b))) = trim (toString (req_userName b))"
  "toString (req_accountNumber (snd (validateUser e b))) = trim (toString (req_accountNumber b))"
  "toString (req_identityNumber (snd (validateUser e b))) = trim (toString (req_identityNumber b))"
  "req_emailAddress (snd (validateUser e b)) = req_emailAddress b"
  "req_password (snd (validateUser e b)) = req_password b"
  by (simp_all add: validateUser_def Let_def toString_def)

lemma post_user_invalid:
  "fst (validateUser e b) \<noteq> [] \<Longrightarrow>
   post_user e b s r = (status_json 400 (ErrorsJson (fst (validateUser e b))), s, r)"
  unfolding post_user_def Let_def split_def by simp

lemma post_user_no_password:
  "fst (validateUser e b) = [] \<Longrightarrow> req_password b = None \<Longrightarrow>
   post_user e b s r = (createError BcryptError, s, r)"
  unfolding post_user_def Let_def split_def by (simp add: validateUser_fields)

lemma post_user_valid:
  "fst (validateUser e b) = [] \<Longrightarrow> req_password b = Some pw \<Longrightarrow>
   post_user e b s r =
     (case save (createdUser e b pw) s of
        Inl err \<Rightarrow> (createError err, s, r)
      | Inr s1 \<Rightarrow>
         (case redis_set (accountKey (trim (toString (req_accountNumber b))))
                 (UserJson (selectNoPassword (createdUser e b pw))) r of
            Inl err \<Rightarrow> (createError err, s1, r)
          | Inr r1 \<Rightarrow>
             (case redis_set (identityKey (trim (toString (req_identityNumber b))))
                     (UserJson (selectNoPassword (createdUser e b pw))) r1 of
                Inl err \<Rightarrow> (createError err, s1, r1)
              | Inr r2 \<Rightarrow>
                 (case invalidateLists r2 of
                    Inl err \<Rightarrow> (createError err, s1, r2)
                  | Inr r3 \<Rightarrow>
                      (status_json 201 (MessageJson ''User created successfully''), s1, r3)))))"
  unfolding post_user_def Let_def split_def validateUser_fields createdUser_def
  by simp

lemma createdUser_keys:
  "accountNumber (createdUser e b pw) = trim (toString (req_accountNumber b))"
  "identityNumber (createdUser e b pw) = trim (toString (req_identityNumber b))"
  "emailAddress (createdUser e b pw) = toLowerCase e (trim (toString (req_emailAddress b)))"
  "password (createdUser e b pw) = Some (hash e pw)"
  by (simp_all add: createdUser_def newUser_def castEmailAddress_def)

lemma post_user_success_aux:
  assumes run: "post_user e b s r = (res, s', r')" and ok: "status res = 201"
  obtains pw r1 r2 where
    "fst (validateUser e b) = []" and "req_password b = Some pw" and
    "save (createdUser e b pw) s = Inr s'" and
    "redis_set (accountKey (accountNumber (createdUser e b pw)))
       (UserJson (selectNoPassword (createdUser e b pw))) r = Inr r1" and
    "redis_set (identityKey (identityNumber (createdUser e b pw)))
       (UserJson (selectNoPassword (createdUser e b pw))) r1 = Inr r2" and
    "invalidateLists r2 = Inr r'" and
    "res = status_json 201 (MessageJson ''User created successfully'')"
proof -
  have noerr: "fst (validateUser e b) = []"
  proof (rule ccontr)
    assume "fst (validateUser e b) \<noteq> []"
    from post_user_invalid [OF this, of s r] run ok show False
      by (simp add: status_json_def)
  qed
  obtain pw where pw: "req_password b = Some pw"
    using run ok noerr post_user_no_password [of e b s r] status_createError
    by (cases "req_password b") auto
  note run1 = run [unfolded post_user_valid [OF noerr pw], folded createdUser_keys(1,2) [of e b pw]]
  let ?u = "createdUser e b pw"
  obtain s1 where s1: "save ?u s = Inr s1"
    using run1 ok status_createError by (cases "save ?u s") auto
  obtain r1 where r1: "redis_set (accountKey (accountNumber ?u)) (UserJson (selectNoPassword ?u)) r = Inr r1"
    using run1 s1 ok status_createError
    by (cases "redis_set (accountKey (accountNumber ?u)) (UserJson (selectNoPassword ?u)) r") auto
  obtain r2 where r2: "redis_set (identityKey (identityNumber ?u)) (UserJson (selectNoPassword ?u)) r1 = Inr r2"
    using run1 s1 r1 ok status_createError
    by (cases "redis_set (identityKey (identityNumber ?u)) (UserJson (selectNoPassword ?u)) r1") auto
  obtain r3 where r3: "invalidateLists r2 = Inr r3"
    using run1 s1 r1 r2 ok status_createError by (cases "invalidateLists r2") auto
  from run1 s1 r1 r2 r3 have "res = status_json 201 (MessageJson ''User created successfully'')"
    "s' = s1" "r' = r3" by simp_all
  with that [of pw r1 r2] noerr pw s1 r1 r2 r3 show ?thesis by simp
qed

lemma save_Inr: "save u s = Inr s' \<longleftrightarrow> validateDoc u \<and> \<not> indexClash u s \<and> s' = s @ [u]"
  by (auto simp: save_def)

text \<open>
  C5. Whenever a create answers 201, the response is the confirmation message and not the
  record; the new document \<open>u\<close> has been appended to the store; the cache holds the
  document without its password, with no expiry, under both \<^verbatim>\<open>user:{accountNumber}\<close> and
  \<^verbatim>\<open>user:identity:{identityNumber}\<close>; and no key that matches \<^verbatim>\<open>users:list:*\<close> is left
  in the cache.
\<close>

theorem post_user_success:
  assumes run: "post_user e b s r = (res, s', r')" and ok: "status res = 201"
  shows "res = status_json 201 (MessageJson ''User created successfully'') \<and>
         (\<exists>u. s' = s @ [u] \<and> password u \<noteq> None \<and>
              map_of (entries r') (accountKey (accountNumber u)) =
                Some (UserJson (u\<lparr>password := None\<rparr>), None) \<and>
              map_of (entries r') (identityKey (identityNumber u)) =
                Some (UserJson (u\<lparr>password := None\<rparr>), None)) \<and>
         (\<forall>k. isListKey k \<longrightarrow> map_of (entries r') k = None)"
proof -
  from run ok obtain pw r1 r2 where
    saved: "save (createdUser e b pw) s = Inr s'" and
    set1: "redis_set (accountKey (accountNumber (createdUser e b pw)))
       (UserJson (selectNoPassword (createdUser e b pw))) r = Inr r1" and
    set2: "redis_set (identityKey (identityNumber (createdUser e b pw)))
       (UserJson (selectNoPassword (createdUser e b pw))) r1 = Inr r2" and
    inv: "invalidateLists r2 = Inr r'" and
    res: "res = status_json 201 (MessageJson ''User created successfully'')"
    by (rule post_user_success_aux)
  let ?u = "createdUser e b pw"
  have look: "map_of (entries r') k =
      (if isListKey k then None
       else if k = identityKey (identityNumber ?u) \<or> k = accountKey (accountNumber ?u)
            then Some (UserJson (selectNoPassword ?u), None)
            else map_of (entries r) k)" for k
    by (simp add: invalidateLists_lookup(1) [OF inv] redis_set_lookup(1) [OF set2]
        redis_set_lookup(1) [OF set1])
  have "s' = s @ [?u]" using saved by (simp add: save_Inr)
  moreover have "password ?u \<noteq> None" by (simp add: createdUser_keys)
  moreover have "map_of (entries r') (accountKey (accountNumber ?u)) =
      Some (UserJson (?u\<lparr>password := None\<rparr>), None)"
    by (simp add: look selectNoPassword_def)
  moreover have "map_of (entries r') (identityKey (identityNumber ?u)) =
      Some (UserJson (?u\<lparr>password := None\<rparr>), None)"
    by (simp add: look selectNoPassword_def)
  moreover have "\<forall>k. isListKey k \<longrightarrow> map_of (entries r') k = None"
    by (simp add: look)
  ultimately show ?thesis using res by blast
qed

theorem post_user_success_witness:
  "status (fst (post_user env0 carolBody [alice] listCached)) = 201 \<and>
   fst (post_user env0 carolBody [alice] listCached) =
     status_json 201 (MessageJson ''User created successfully'') \<and>
   fst (snd (post_user env0 carolBody [alice] listCached)) = [alice, carol] \<and>
   map_of (entries (snd (snd (post_user env0 carolBody [alice] listCached)))) ''user:A3'' =
     Some (UserJson (carol\<lparr>password := None\<rparr>), None) \<and>
   map_of (entries (snd (snd (post_user env0 carolBody [alice] listCached)))) ''user:identity:I3'' =
     Some (UserJson (carol\<lparr>password := None\<rparr>), None) \<and>
   map_of (entries (snd (snd (post_user env0 carolBody [alice] listCached)))) ''users:list:all'' = None"
proof -
  define out where "out = post_user env0 carolBody [alice] listCached"
  have run: "post_user env0 carolBody [alice] listCached = (fst out, fst (snd out), snd (snd out))"
    by (simp add: out_def)
  have ok: "status (fst out) = 201" unfolding out_def by code_simp
  have store: "fst (snd out) = [alice, carol]" unfolding out_def by code_simp
  have key: "isListKey ''users:list:all''" by code_simp
  have acc: "accountKey (accountNumber carol) = ''user:A3''" by code_simp
  have ide: "identityKey (identityNumber carol) = ''user:identity:I3''" by code_simp
  from post_user_success [OF run ok] store key acc ide ok
  show ?thesis unfolding out_def [symmetric] by auto
qed

lemma post_user_clash:
  assumes "indexClash (createdUser e b pw) s" "req_password b = Some pw"
  shows "status (fst (post_user e b s r)) \<noteq> 201 \<and> fst (snd (post_user e b s r)) = s"
proof (cases "fst (validateUser e b) = []")
  case True
  have "save (createdUser e b pw) s = Inl ValidationError \<or> save (createdUser e b pw) s = Inl DuplicateKey"
    using assms by (simp add: save_def)
  then show ?thesis
    by (auto simp: post_user_valid [OF True assms(2)] status_createError)
next
  case False
  then show ?thesis by (simp add: post_user_invalid status_json_def)
qed

lemma post_user_duplicate:
  assumes valid: "fst (validateUser e b) = []" and pw: "req_password b = Some pw"
    and hashed: "hash e pw \<noteq> []" and email: "emailAddress (createdUser e b pw) \<noteq> []"
    and clash: "indexClash (createdUser e b pw) s"
  shows "post_user e b s r = (status_json 400 (MessageJson ''Duplicate entry found''), s, r)"
proof -
  from valid have "trim (toString (req_userName b)) \<noteq> []" "trim (toString (req_accountNumber b)) \<noteq> []"
    "trim (toString (req_identityNumber b)) \<noteq> []"
    by (auto simp: validateUser_def Let_def split: if_splits)
  with hashed email have "validateDoc (createdUser e b pw)"
    by (simp add: validateDoc_def createdUser_def newUser_def castUserName_def trim_idem)
  with clash have "save (createdUser e b pw) s = Inl DuplicateKey"
    by (simp add: save_def)
  then show ?thesis
    by (simp add: post_user_valid [OF valid pw] createError_def)
qed

lemma indexClash_email:
  "u \<in> set s \<Longrightarrow> emailAddress u = emailAddress v \<Longrightarrow> indexClash v s"
  by (auto simp: indexClash_def list_ex_iff)

lemma post_user_persisted:
  assumes run: "post_user e b s r = (res, s', r')" and persisted: "s' \<noteq> s"
  obtains pw where "fst (validateUser e b) = []" and "req_password b = Some pw" and
    "save (createdUser e b pw) s = Inr s'"
proof -
  have noerr: "fst (validateUser e b) = []"
  proof (rule ccontr)
    assume "fst (validateUser e b) \<noteq> []"
    from post_user_invalid [OF this, of s r] run persisted show False by simp
  qed
  obtain pw where pw: "req_password b = Some pw"
    using run persisted noerr post_user_no_password [of e b s r]
    by (cases "req_password b") auto
  note run1 = run [unfolded post_user_valid [OF noerr pw]]
  obtain s1 where s1: "save (createdUser e b pw) s = Inr s1"
    using run1 persisted by (cases "save (createdUser e b pw) s") auto
  from run1 s1 have "s' = s1" by (auto split: sum.splits)
  with that noerr pw s1 show ?thesis by simp
qed

lemma post_user_created_persists:
  assumes "post_user e b s r = (res, s', r')" and "status res = 201"
  shows "s' \<noteq> s"
proof -
  from assms obtain pw where "save (createdUser e b pw) s = Inr s'"
    by (rule post_user_success_aux)
  then show ?thesis by (simp add: save_Inr)
qed

text \<open>
  C10. Whenever a create persists a document (it answers 201, or 500 when a cache call
  fails after the save), the document appended to the store carries the submitted email
  address trimmed and lower-cased: the submitted address is white space, the trimmed
  address, white space; the trimmed address neither starts nor ends with a white space
  character; and the stored address is its lower case. Any later create on the same
  platform whose trimmed email address has the same lower case, so differs from it in
  letter case only, does not succeed and leaves the store as it is: it is rejected by the
  unique index on \<^verbatim>\<open>emailAddress\<close>, and when the request is otherwise acceptable (it
  passes validation, has a password, and the hash is not empty) the answer is 400
  \<^verbatim>\<open>Duplicate entry found\<close>.
\<close>

theorem post_user_email_lower_cased:
  assumes run: "post_user e b s r = (res, s', r')" and persisted: "s' \<noteq> s"
    and platform: "lowerCase e2 = lowerCase e"
    and same: "toLowerCase e (trim (toString (req_emailAddress b2))) =
               toLowerCase e (trim (toString (req_emailAddress b)))"
  shows "(\<exists>u pre post. s' = s @ [u] \<and>
              emailAddress u = toLowerCase e (trim (toString (req_emailAddress b))) \<and>
              toString (req_emailAddress b) =
                pre @ trim (toString (req_emailAddress b)) @ post \<and>
              whiteSpaceOnly pre \<and> whiteSpaceOnly post \<and>
              \<not> startsWithWhiteSpace (trim (toString (req_emailAddress b))) \<and>
              \<not> endsWithWhiteSpace (trim (toString (req_emailAddress b)))) \<and>
         status (fst (post_user e2 b2 s' r2)) \<noteq> 201 \<and>
         fst (snd (post_user e2 b2 s' r2)) = s' \<and>
         (fst (validateUser e2 b2) = [] \<and> req_password b2 = Some pw2 \<and> hash e2 pw2 \<noteq> [] \<longrightarrow>
            post_user e2 b2 s' r2 =
              (status_json 400 (MessageJson ''Duplicate entry found''), s', r2))"
proof -
  from run persisted obtain pw where saved: "save (createdUser e b pw) s = Inr s'"
    by (rule post_user_persisted)
  let ?u = "createdUser e b pw"
  let ?x = "toString (req_emailAddress b)"
  from saved have s': "s' = s @ [?u]" and valid: "validateDoc ?u"
    by (simp_all add: save_Inr)
  from platform have lower: "toLowerCase e2 = toLowerCase e"
    by (rule_tac ext) (simp add: toLowerCase_def)
  have mail: "emailAddress (createdUser e2 b2 p) = emailAddress ?u" for p
    using same by (simp add: createdUser_keys lower)
  have clash: "indexClash (createdUser e2 b2 p) s'" for p
    by (rule indexClash_email [of ?u]) (simp_all add: s' mail)
  from trim_shape [of ?x] obtain pre post where
    shape: "?x = pre @ trim ?x @ post" "whiteSpaceOnly pre" "whiteSpaceOnly post" by blast
  have first: "\<exists>u pre post. s' = s @ [u] \<and>
      emailAddress u = toLowerCase e (trim ?x) \<and> ?x = pre @ trim ?x @ post \<and>
      whiteSpaceOnly pre \<and> whiteSpaceOnly post \<and>
      \<not> startsWithWhiteSpace (trim ?x) \<and> \<not> endsWithWhiteSpace (trim ?x)"
    using s' shape trim_ends [of ?x] createdUser_keys(3) [of e b pw] by blast
  have fails: "status (fst (post_user e2 b2 s' r2)) \<noteq> 201 \<and> fst (snd (post_user e2 b2 s' r2)) = s'"
  proof (cases "req_password b2")
    case None
    show ?thesis
    proof (cases "fst (validateUser e2 b2) = []")
      case True
      with None show ?thesis by (simp add: post_user_no_password status_createError)
    next
      case False
      then show ?thesis by (simp add: post_user_invalid status_json_def)
    qed
  next
    case (Some p)
    with clash [of p] show ?thesis by (simp add: post_user_clash)
  qed
  have dup: "post_user e2 b2 s' r2 =
      (status_json 400 (MessageJson ''Duplicate entry found''), s', r2)"
    if "fst (validateUser e2 b2) = []" "req_password b2 = Some pw2" "hash e2 pw2 \<noteq> []"
  proof (rule post_user_duplicate [OF that])
    from valid show "emailAddress (createdUser e2 b2 pw2) \<noteq> []"
      by (simp add: mail validateDoc_def)
    show "indexClash (createdUser e2 b2 pw2) s'" by (rule clash)
  qed
  from first fails dup show ?thesis by blast
qed

theorem post_user_email_lower_cased_witness:
  "fst (snd (post_user env0 paddedBody [alice] listCached)) = [alice, carol] \<and>
   [alice, carol] \<noteq> [alice] \<and>
   req_emailAddress paddedBody = Some ([CHR 0xE2, CHR 0x80, CHR 0x83] @ ''Carol@Example.COM'') \<and>
   trim ([CHR 0xE2, CHR 0x80, CHR 0x83] @ ''Carol@Example.COM'') = ''Carol@Example.COM'' \<and>
   emailAddress carol = ''carol@example.com'' \<and>
   req_emailAddress daveBody = Some ''CAROL@example.com'' \<and>
   fst (validateUser (env0\<lparr>new_id := 4\<rparr>) daveBody) = [] \<and>
   post_user (env0\<lparr>new_id := 4\<rparr>) daveBody [alice, carol] emptyRedis =
     (status_json 400 (MessageJson ''Duplicate entry found''), [alice, carol], emptyRedis)"
proof -
  define out where "out = post_user env0 paddedBody [alice] listCached"
  have run: "post_user env0 paddedBody [alice] listCached = (fst out, fst (snd out), snd (snd out))"
    by (simp add: out_def)
  have store: "fst (snd out) = [alice, carol]" unfolding out_def by code_simp
  then have persisted: "fst (snd out) \<noteq> [alice]" by simp
  have platform: "lowerCase (env0\<lparr>new_id := 4\<rparr>) = lowerCase env0" by simp
  have same: "toLowerCase env0 (trim (toString (req_emailAddress daveBody))) =
              toLowerCase env0 (trim (toString (req_emailAddress paddedBody)))" by code_simp
  have padded: "req_emailAddress paddedBody =
      Some ([CHR 0xE2, CHR 0x80, CHR 0x83] @ ''Carol@Example.COM'')" by code_simp
  have trimmed: "trim ([CHR 0xE2, CHR 0x80, CHR 0x83] @ ''Carol@Example.COM'') =
      ''Carol@Example.COM''" by code_simp
  have mail: "emailAddress carol = ''carol@example.com''" by code_simp
  have dave: "req_emailAddress daveBody = Some ''CAROL@example.com''" by code_simp
  have valid: "fst (validateUser (env0\<lparr>new_id := 4\<rparr>) daveBody) = []" by code_simp
  have pw: "req_password daveBody = Some ''pw4''" by code_simp
  have hashed: "hash (env0\<lparr>new_id := 4\<rparr>) ''pw4'' \<noteq> []" by code_simp
  from post_user_email_lower_cased [OF run persisted platform same,
      where ?r2.0 = emptyRedis and ?pw2.0 = "''pw4''"]
    valid pw hashed store
  have "post_user (env0\<lparr>new_id := 4\<rparr>) daveBody [alice, carol] emptyRedis =
     (status_json 400 (MessageJson ''Duplicate entry found''), [alice, carol], emptyRedis)"
    by simp
  with store padded trimmed mail dave valid show ?thesis unfolding out_def by simp
qed

section \<open>The update route\<close>

lemma put_user_not_found:
  "findById userId s = None \<Longrightarrow> put_user e userId updates s r = (notFound, s, r)"
  by (simp add: put_user_def)

lemma put_user_checked:
  assumes "findById userId s = Some target"
    and "truthy (req_accountNumber updates) \<or> truthy (req_emailAddress updates) \<or>
         truthy (req_identityNumber updates)"
    and "findOne (conflictFilter e userId updates) s \<noteq> None"
  shows "put_user e userId updates s r = (conflictResponse, s, r)"
  using assms by (simp add: put_user_def)

lemma put_user_unchecked:
  assumes "findById userId s = Some target"
    and "\<not> ((truthy (req_accountNumber updates) \<or> truthy (req_emailAddress updates) \<or>
              truthy (req_identityNumber updates)) \<and>
             findOne (conflictFilter e userId updates) s \<noteq> None)"
  shows "put_user e userId updates s r =
     (case findByIdAndUpdate e userId updates s of
        Inl err \<Rightarrow> (updateError err, s, r)
      | Inr (s', None) \<Rightarrow> (updateError TypeError, s', r)
      | Inr (s', Some updatedUser) \<Rightarrow>
          (case redis_del [''user:'' @ accountNumber updatedUser] r of
             Inl err \<Rightarrow> (updateError err, s', r)
           | Inr r1 \<Rightarrow>
               (case redis_del [''user:'' @ identityNumber updatedUser] r1 of
                  Inl err \<Rightarrow> (updateError err, s', r1)
                | Inr r2 \<Rightarrow> (json (UserJson updatedUser), s', r2))))"
  unfolding put_user_def assms(1) option.case if_not_P [OF assms(2)] by (rule refl)

lemma findOne_holds: "v \<in> set s \<Longrightarrow> p v \<Longrightarrow> findOne p s \<noteq> None"
  by (auto simp: findOne_def find_None_iff)

text \<open>
  C6. The target of the update exists, and some other document \<open>v\<close> (its id differs from
  the target's) owns a value the update sets: its account number, its email address (the
  update's address compared as the store compares it, trimmed and lower-cased), or its
  identity number; the value is not empty, as the validation middleware guarantees. Then the
  handler answers 400 with the one message that names all three fields, and returns the
  store and the cache as they were, so the target keeps its account number; the same holds
  for the route when the body passes validation and \<open>updates\<close> is the sanitised body.
\<close>

theorem put_user_conflict:
  assumes target: "findById userId s = Some target"
    and other: "v \<in> set s" "uid v \<noteq> userId"
    and owned:
      "(req_accountNumber updates = Some (accountNumber v) \<and> accountNumber v \<noteq> []) \<or>
       (\<exists>ea. req_emailAddress updates = Some ea \<and> ea \<noteq> [] \<and>
             castEmailAddress e ea = emailAddress v) \<or>
       (req_identityNumber updates = Some (identityNumber v) \<and> identityNumber v \<noteq> [])"
  shows "put_user e userId updates s r = (conflictResponse, s, r) \<and>
         status conflictResponse = 400 \<and>
         payload conflictResponse =
           MessageJson ''Account number, email, or identity number already in use'' \<and>
         (fst (validateUserUpdate e reqBody) = [] \<and> snd (validateUserUpdate e reqBody) = updates
            \<longrightarrow> put_route e userId reqBody s r = (conflictResponse, s, r))"
proof -
  from owned have filter: "conflictFilter e userId updates v"
    using other(2) by (auto simp: conflictFilter_def truthy_def)
  from owned have check: "truthy (req_accountNumber updates) \<or> truthy (req_emailAddress updates) \<or>
      truthy (req_identityNumber updates)"
    by (auto simp: truthy_def)
  have handler: "put_user e userId updates s r = (conflictResponse, s, r)"
    using findOne_holds [of v s "conflictFilter e userId updates", OF other(1) filter]
    by (rule put_user_checked [OF target check])
  then have "put_route e userId reqBody s r = (conflictResponse, s, r)"
    if "fst (validateUserUpdate e reqBody) = []" "snd (validateUserUpdate e reqBody) = updates"
    using that unfolding put_route_def Let_def split_def by simp
  with handler show ?thesis
    by (simp add: conflictResponse_def status_json_def)
qed

theorem put_user_conflict_witness:
  "findById 1 [alice, bob] = Some alice \<and> bob \<in> set [alice, bob] \<and> uid bob \<noteq> 1 \<and>
   accountNumber bob = ''A2'' \<and>
   put_user env0 1 (noBody\<lparr>req_accountNumber := Some ''A2''\<rparr>) [alice, bob] emptyRedis =
     (conflictResponse, [alice, bob], emptyRedis) \<and>
   status conflictResponse = 400"
proof -
  have target: "findById 1 [alice, bob] = Some alice" by code_simp
  have other: "bob \<in> set [alice, bob]" "uid bob \<noteq> 1" by simp code_simp
  have acct: "accountNumber bob = ''A2''" by code_simp
  then have owned:
     "(req_accountNumber (noBody\<lparr>req_accountNumber := Some ''A2''\<rparr>) = Some (accountNumber bob) \<and>
        accountNumber bob \<noteq> []) \<or>
      (\<exists>ea. req_emailAddress (noBody\<lparr>req_accountNumber := Some ''A2''\<rparr>) = Some ea \<and> ea \<noteq> [] \<and>
             castEmailAddress env0 ea = emailAddress bob) \<or>
      (req_identityNumber (noBody\<lparr>req_accountNumber := Some ''A2''\<rparr>) = Some (identityNumber bob) \<and>
        identityNumber bob \<noteq> [])"
    by simp
  from put_user_conflict [where e = env0 and r = emptyRedis, OF target other owned] target other acct
  show ?thesis by simp
qed

lemma updateClash_none:
  assumes "req_accountNumber b = None" "req_emailAddress b = None" "req_identityNumber b = None"
  shows "\<not> updateClash i (castUpdate e b) s"
  using assms by (simp add: updateClash_def castUpdate_def list_ex_iff)

lemma findByIdAndUpdate_no_duplicate:
  assumes "req_accountNumber b = None" "req_emailAddress b = None" "req_identityNumber b = None"
  shows "findByIdAndUpdate e i b s \<noteq> Inl DuplicateKey"
  using updateClash_none [OF assms, of i e s]
  by (simp add: findByIdAndUpdate_def Let_def split: option.split)

lemma redis_del_Inl: "redis_del ks r = Inl err \<Longrightarrow> err = RedisError"
  by (simp add: redis_del_def split: if_splits)

lemma put_user_unchecked_outcome:
  assumes target: "findById userId s = Some target"
    and nocheck: "\<not> ((truthy (req_accountNumber updates) \<or> truthy (req_emailAddress updates) \<or>
              truthy (req_identityNumber updates)) \<and>
             findOne (conflictFilter e userId updates) s \<noteq> None)"
  shows "(\<exists>err. fst (put_user e userId updates s r) = updateError err \<and>
            (err = DuplicateKey \<longrightarrow> findByIdAndUpdate e userId updates s = Inl DuplicateKey)) \<or>
         (\<exists>u. fst (put_user e userId updates s r) = json (UserJson u))"
proof (cases "findByIdAndUpdate e userId updates s")
  case (Inl err)
  then have "fst (put_user e userId updates s r) = updateError err"
    by (simp add: put_user_unchecked [OF target nocheck])
  with Inl show ?thesis by blast
next
  case (Inr out)
  obtain s' res where out: "out = (s', res)" by (cases out)
  show ?thesis
  proof (cases res)
    case None
    with Inr out have "fst (put_user e userId updates s r) = updateError TypeError"
      by (simp add: put_user_unchecked [OF target nocheck])
    then show ?thesis by blast
  next
    case (Some u)
    show ?thesis
    proof (cases "redis_del [''user:'' @ accountNumber u] r")
      case (Inl err)
      with Inr out Some redis_del_Inl [OF Inl]
      have "fst (put_user e userId updates s r) = updateError RedisError"
        by (simp add: put_user_unchecked [OF target nocheck])
      then show ?thesis by blast
    next
      case r1: (Inr r1)
      show ?thesis
      proof (cases "redis_del [''user:'' @ identityNumber u] r1")
        case (Inl err)
        with Inr out Some r1 redis_del_Inl [OF Inl]
        have "fst (put_user e userId updates s r) = updateError RedisError"
          by (simp add: put_user_unchecked [OF target nocheck])
        then show ?thesis by blast
      next
        case r2: (Inr r2)
        with Inr out Some r1 have "fst (put_user e userId updates s r) = json (UserJson u)"
          by (simp add: put_user_unchecked [OF target nocheck])
        then show ?thesis by blast
      qed
    qed
  qed
qed

lemma put_user_no_fields:
  assumes none: "req_accountNumber updates = None" "req_emailAddress updates = None"
      "req_identityNumber updates = None"
  shows "fst (put_user e userId updates s r) \<noteq> conflictResponse \<and>
         status (fst (put_user e userId updates s r)) \<noteq> 400 \<and>
         payload (fst (put_user e userId updates s r)) \<noteq> MessageErrorJson ''Server error'' DuplicateKey"
proof (cases "findById userId s")
  case None
  then show ?thesis
    by (simp add: put_user_not_found notFound_def conflictResponse_def status_json_def)
next
  case (Some target)
  from none have nocheck: "\<not> ((truthy (req_accountNumber updates) \<or>
      truthy (req_emailAddress updates) \<or> truthy (req_identityNumber updates)) \<and>
      findOne (conflictFilter e userId updates) s \<noteq> None)"
    by (simp add: truthy_def)
  from put_user_unchecked_outcome [OF Some nocheck, of r]
    findByIdAndUpdate_no_duplicate [OF none, of e userId s]
  show ?thesis
    by (auto simp: updateError_def json_def conflictResponse_def status_json_def)
qed

text \<open>
  C8. When the update sets none of \<^verbatim>\<open>accountNumber\<close>, \<^verbatim>\<open>emailAddress\<close> and
  \<^verbatim>\<open>identityNumber\<close>, the explicit uniqueness check is skipped: the answer of the
  handler is never the conflict response, never a 400, and never a duplicate-key error of
  the store; the answer of the route, validation included, is never the conflict response.
\<close>

theorem put_user_userName_only:
  assumes none: "req_accountNumber updates = None" "req_emailAddress updates = None"
      "req_identityNumber updates = None"
  shows "fst (put_user e userId updates s r) \<noteq> conflictResponse \<and>
         status (fst (put_user e userId updates s r)) \<noteq> 400 \<and>
         payload (fst (put_user e userId updates s r)) \<noteq>
           MessageErrorJson ''Server error'' DuplicateKey \<and>
         fst (put_route e userId updates s r) \<noteq> conflictResponse"
proof -
  let ?b = "snd (validateUserUpdate e updates)"
  from none have "req_accountNumber ?b = None" "req_emailAddress ?b = None"
      "req_identityNumber ?b = None"
    by (simp_all add: validateUserUpdate_def Let_def)
  from put_user_no_fields [OF this, of e userId s r]
  have "fst (put_route e userId updates s r) \<noteq> conflictResponse"
    unfolding put_route_def Let_def split_def
    by (simp add: conflictResponse_def status_json_def)
  with put_user_no_fields [OF none, of e userId s r] show ?thesis by simp
qed

theorem put_user_userName_only_witness:
  "req_accountNumber renameBody = None \<and> req_emailAddress renameBody = None \<and>
   req_identityNumber renameBody = None \<and>
   status (fst (put_user env0 1 renameBody [alice, bob] emptyRedis)) = 200 \<and>
   fst (put_user env0 1 renameBody [alice, bob] emptyRedis) \<noteq> conflictResponse \<and>
   fst (put_route env0 1 renameBody [alice, bob] emptyRedis) \<noteq> conflictResponse"
proof -
  have none: "req_accountNumber renameBody = None" "req_emailAddress renameBody = None"
    "req_identityNumber renameBody = None" by code_simp+
  have ok: "status (fst (put_user env0 1 renameBody [alice, bob] emptyRedis)) = 200" by code_simp
  from put_user_userName_only [OF none, of env0 1 "[alice, bob]" emptyRedis] none ok
  show ?thesis by simp
qed

lemma status_updateError: "status (updateError err) \<noteq> 200"
  by (simp add: updateError_def status_json_def)

lemma put_user_ok:
  assumes run: "put_user e userId updates s r = (res, s', r')" and ok: "status res = 200"
  obtains target u r1 where
    "findById userId s = Some target" and
    "findByIdAndUpdate e userId updates s = Inr (s', Some u)" and
    "redis_del [''user:'' @ accountNumber u] r = Inr r1" and
    "redis_del [''user:'' @ identityNumber u] r1 = Inr r'" and
    "res = json (UserJson u)"
proof -
  obtain target where target: "findById userId s = Some target"
    using run ok by (cases "findById userId s") (auto simp: put_user_not_found notFound_def status_json_def)
  have nocheck: "\<not> ((truthy (req_accountNumber updates) \<or> truthy (req_emailAddress updates) \<or>
              truthy (req_identityNumber updates)) \<and>
             findOne (conflictFilter e userId updates) s \<noteq> None)"
  proof
    assume "(truthy (req_accountNumber updates) \<or> truthy (req_emailAddress updates) \<or>
              truthy (req_identityNumber updates)) \<and>
             findOne (conflictFilter e userId updates) s \<noteq> None"
    then have "put_user e userId updates s r = (conflictResponse, s, r)"
      using put_user_checked [OF target] by blast
    with run have "res = conflictResponse" by simp
    with ok show False by (simp add: conflictResponse_def status_json_def)
  qed
  note run1 = run [unfolded put_user_unchecked [OF target nocheck]]
  obtain s1 out where upd: "findByIdAndUpdate e userId updates s = Inr (s1, out)"
    using run1 ok status_updateError
    by (cases "findByIdAndUpdate e userId updates s") (auto split: prod.splits)
  obtain u where u: "out = Some u"
    using run1 upd ok status_updateError by (cases out) auto
  obtain r1 where r1: "redis_del [''user:'' @ accountNumber u] r = Inr r1"
    using run1 upd u ok status_updateError
    by (cases "redis_del [''user:'' @ accountNumber u] r") auto
  obtain r2 where r2: "redis_del [''user:'' @ identityNumber u] r1 = Inr r2"
    using run1 upd u r1 ok status_updateError
    by (cases "redis_del [''user:'' @ identityNumber u] r1") auto
  from run1 upd u r1 r2 have "res = json (UserJson u)" "s' = s1" "r' = r2" by simp_all
  with that [of target u r1] target upd u r1 r2 show ?thesis by simp
qed

text \<open>What a successful update does to the cache: the keys \<^verbatim>\<open>user:{accountNumber}\<close> and
  \<^verbatim>\<open>user:{identityNumber}\<close> of the updated document are deleted, every other key is kept.\<close>

lemma put_user_ok_cache:
  assumes run: "put_user e userId updates s r = (res, s', r')" and ok: "status res = 200"
  shows "\<exists>u. res = json (UserJson u) \<and>
     (\<forall>k. map_of (entries r') k =
        (if k = ''user:'' @ accountNumber u \<or> k = ''user:'' @ identityNumber u then None
         else map_of (entries r) k))"
proof -
  from run ok obtain u r1 where
    d1: "redis_del [''user:'' @ accountNumber u] r = Inr r1" and
    d2: "redis_del [''user:'' @ identityNumber u] r1 = Inr r'" and
    res: "res = json (UserJson u)"
    by (rule put_user_ok)
  have "map_of (entries r') k =
        (if k = ''user:'' @ accountNumber u \<or> k = ''user:'' @ identityNumber u then None
         else map_of (entries r) k)" for k
    by (simp add: redis_del_lookup(1) [OF d2] redis_del_lookup(1) [OF d1])
  with res show ?thesis by blast
qed

lemma put_user_ok_keeps_identity_entry:
  assumes run: "put_user e userId updates s r = (res, s', r')" and ok: "status res = 200"
  shows "\<exists>u. res = json (UserJson u) \<and>
     (accountNumber u \<noteq> ''identity:'' @ identityNumber u \<longrightarrow>
      map_of (entries r') (identityKey (identityNumber u)) =
      map_of (entries r) (identityKey (identityNumber u)))"
proof -
  from put_user_ok_cache [OF run ok] obtain u where res: "res = json (UserJson u)"
    and look: "\<And>k. map_of (entries r') k =
        (if k = ''user:'' @ accountNumber u \<or> k = ''user:'' @ identityNumber u then None
         else map_of (entries r) k)" by blast
  have "identityKey (identityNumber u) \<noteq> ''user:'' @ identityNumber u"
    by (simp add: identityKey_def)
  moreover have "identityKey (identityNumber u) = ''user:'' @ accountNumber u \<longleftrightarrow>
      accountNumber u = ''identity:'' @ identityNumber u"
    by (auto simp: identityKey_def)
  ultimately show ?thesis using res look by auto
qed

text \<open>The document a successful update returns carries the password whenever the stored
  document has one.\<close>

lemma findByIdAndUpdate_password:
  assumes "findByIdAndUpdate e i b s = Inr (s', Some u)" "findById i s = Some target"
    "password target \<noteq> None"
  shows "password u \<noteq> None"
  using assms
  by (auto simp: findByIdAndUpdate_def Let_def applySet_def split: if_splits option.splits)

lemma put_user_ok_password:
  assumes run: "put_user e userId updates s r = (res, s', r')" and ok: "status res = 200"
    and target: "findById userId s = Some target" and pw: "password target \<noteq> None"
  shows "\<exists>u. payload res = UserJson u \<and> password u \<noteq> None"
proof -
  from run ok obtain u where
    "findByIdAndUpdate e userId updates s = Inr (s', Some u)" "res = json (UserJson u)"
    by (rule put_user_ok)
  with findByIdAndUpdate_password [OF _ target pw] show ?thesis
    by (auto simp: json_def)
qed

text \<open>
  C1, at a concrete input. Alice is cached under \<^verbatim>\<open>user:A1\<close> and \<^verbatim>\<open>user:identity:I1\<close>.
  The update of her user name answers 200 and changes the store; afterwards the entry under
  \<^verbatim>\<open>user:A1\<close> is gone, and the entry under \<^verbatim>\<open>user:identity:I1\<close> is still there, with the
  old user name: the second \<^verbatim>\<open>del\<close> of the handler is sent to \<^verbatim>\<open>user:I1\<close>. The
  list entry is left as it was.
\<close>

theorem put_user_keeps_identity_cache:
  "status (fst (put_user env0 1 renameBody [alice] aliceCached)) = 200 \<and>
   fst (snd (put_user env0 1 renameBody [alice] aliceCached)) =
     [alice\<lparr>userName := ''Alicia'', updatedAt := 100\<rparr>] \<and>
   map_of (entries (snd (snd (put_user env0 1 renameBody [alice] aliceCached))))
     (accountKey ''A1'') = None \<and>
   map_of (entries (snd (snd (put_user env0 1 renameBody [alice] aliceCached))))
     (identityKey ''I1'') = Some (UserJson (selectNoPassword alice), None) \<and>
   map_of (entries (snd (snd (put_user env0 1 renameBody [alice] aliceCached))))
     ''users:list:all'' = Some (UsersJson [selectNoPassword alice] None, Some 300)"
  by code_simp

text \<open>
  C2, at a concrete input. The body of the answer to a successful update is the updated
  document with its \<^verbatim>\<open>password\<close> field, the stored hash.
\<close>

theorem put_user_returns_password:
  "fst (put_user env0 1 renameBody [alice] aliceCached) =
     json (UserJson (alice\<lparr>userName := ''Alicia'', updatedAt := 100\<rparr>)) \<and>
   password (alice\<lparr>userName := ''Alicia'', updatedAt := 100\<rparr>) = Some ''$2a$10$secret''"
  by code_simp

section \<open>The read routes\<close>

lemma redis_get_up:
  "OpGet \<notin> failing r \<Longrightarrow> redis_get k r = Inr (map_option fst (map_of (entries r) k))"
  by (simp add: redis_get_def)

lemma redis_get_down: "OpGet \<in> failing r \<Longrightarrow> redis_get k r = Inl RedisError"
  by (simp add: redis_get_def)

lemma get_account_cases:
  "get_account a s r =
     (if OpGet \<in> failing r then (serverError, r)
      else case map_of (entries r) (accountKey a) of
             Some (v, t) \<Rightarrow> (json v, r)
           | None \<Rightarrow>
               (case findOne (\<lambda>u. accountNumber u = a) s of
                  None \<Rightarrow> (notFound, r)
                | Some u \<Rightarrow>
                    if OpSet \<in> failing r then (serverError, r)
                    else (json (UserJson (selectNoPassword u)),
                          r\<lparr>entries := AList.update (accountKey a)
                               (UserJson (selectNoPassword u), None) (entries r)\<rparr>)))"
  unfolding get_account_def Let_def redis_get_def redis_set_def
  by (simp split: option.split)

lemma get_identity_cases:
  "get_identity i s r =
     (if OpGet \<in> failing r then (serverError, r)
      else case map_of (entries r) (identityKey i) of
             Some (v, t) \<Rightarrow> (json v, r)
           | None \<Rightarrow>
               (case findOne (\<lambda>u. identityNumber u = i) s of
                  None \<Rightarrow> (notFound, r)
                | Some u \<Rightarrow>
                    if OpSet \<in> failing r then (serverError, r)
                    else (json (UserJson (selectNoPassword u)),
                          r\<lparr>entries := AList.update (identityKey i)
                               (UserJson (selectNoPassword u), None) (entries r)\<rparr>)))"
  unfolding get_identity_def Let_def redis_get_def redis_set_def
  by (simp split: option.split)

lemma findOne_Some: "findOne p s = Some u \<Longrightarrow> p u \<and> u \<in> set s"
  by (auto simp: findOne_def find_Some_iff)

lemma keys_coincide:
  "identityKey i = accountKey a \<longleftrightarrow> a = ''identity:'' @ i"
  by (auto simp: identityKey_def accountKey_def)

text \<open>
  C4 as stated fails: Mallory's account number is \<^verbatim>\<open>identity:7\<close> and her identity number
  is \<^verbatim>\<open>7\<close>. The cache is empty; the lookup by her account number writes the key
  \<^verbatim>\<open>user:identity:7\<close>, which is the identity-number slot of the same record.
\<close>

theorem get_account_fills_identity_slot:
  "map_of (entries emptyRedis) (identityKey (identityNumber mallory)) = None \<and>
   map_of (entries (snd (get_account (accountNumber mallory) [mallory] emptyRedis)))
     (identityKey (identityNumber mallory)) = Some (UserJson (selectNoPassword mallory), None)"
  by code_simp

text \<open>
  C4, amended. With the cache answering: a lookup by account number or by identity number
  returns the cached value as it is when the key of the lookup holds one; on a miss it
  answers not-found when the store has no such record; otherwise it answers the record
  without its password and writes exactly that value, with no expiry, under the key of the
  lookup, and every other key of the cache keeps its value. So the slot of the other
  alternate key of the same record is untouched, unless the two keys are the same string,
  which is the case exactly when the account number is \<^verbatim>\<open>identity:\<close> followed by the
  identity number.
\<close>

theorem get_by_alternate_key:
  assumes up: "OpGet \<notin> failing r" "OpSet \<notin> failing r"
  shows
   "(map_of (entries r) (accountKey a) = Some (v, t) \<longrightarrow> get_account a s r = (json v, r)) \<and>
    (map_of (entries r) (accountKey a) = None \<and> findOne (\<lambda>u. accountNumber u = a) s = None \<longrightarrow>
       get_account a s r = (notFound, r)) \<and>
    (map_of (entries r) (accountKey a) = None \<and> findOne (\<lambda>u. accountNumber u = a) s = Some u \<longrightarrow>
       fst (get_account a s r) = json (UserJson (u\<lparr>password := None\<rparr>)) \<and>
       (\<forall>k. map_of (entries (snd (get_account a s r))) k =
            (if k = accountKey a then Some (UserJson (u\<lparr>password := None\<rparr>), None)
             else map_of (entries r) k)) \<and>
       (accountNumber u \<noteq> ''identity:'' @ identityNumber u \<longrightarrow>
          map_of (entries (snd (get_account a s r))) (identityKey (identityNumber u)) =
          map_of (entries r) (identityKey (identityNumber u)))) \<and>
    (map_of (entries r) (identityKey i) = Some (v, t) \<longrightarrow> get_identity i s r = (json v, r)) \<and>
    (map_of (entries r) (identityKey i) = None \<and> findOne (\<lambda>u. identityNumber u = i) s = None \<longrightarrow>
       get_identity i s r = (notFound, r)) \<and>
    (map_of (entries r) (identityKey i) = None \<and> findOne (\<lambda>u. identityNumber u = i) s = Some w \<longrightarrow>
       fst (get_identity i s r) = json (UserJson (w\<lparr>password := None\<rparr>)) \<and>
       (\<forall>k. map_of (entries (snd (get_identity i s r))) k =
            (if k = identityKey i then Some (UserJson (w\<lparr>password := None\<rparr>), None)
             else map_of (entries r) k)) \<and>
       (accountNumber w \<noteq> ''identity:'' @ identityNumber w \<longrightarrow>
          map_of (entries (snd (get_identity i s r))) (accountKey (accountNumber w)) =
          map_of (entries r) (accountKey (accountNumber w))))"
proof -
  have acc_hit: "get_account a s r = (json v, r)"
    if "map_of (entries r) (accountKey a) = Some (v, t)"
    using up that by (simp add: get_account_cases)
  have acc_absent: "get_account a s r = (notFound, r)"
    if "map_of (entries r) (accountKey a) = None" "findOne (\<lambda>u. accountNumber u = a) s = None"
    using up that by (simp add: get_account_cases)
  have acc_miss: "fst (get_account a s r) = json (UserJson (u\<lparr>password := None\<rparr>)) \<and>
       (\<forall>k. map_of (entries (snd (get_account a s r))) k =
            (if k = accountKey a then Some (UserJson (u\<lparr>password := None\<rparr>), None)
             else map_of (entries r) k)) \<and>
       (accountNumber u \<noteq> ''identity:'' @ identityNumber u \<longrightarrow>
          map_of (entries (snd (get_account a s r))) (identityKey (identityNumber u)) =
          map_of (entries r) (identityKey (identityNumber u)))"
    if miss: "map_of (entries r) (accountKey a) = None"
      and found: "findOne (\<lambda>u. accountNumber u = a) s = Some u"
  proof -
    from findOne_Some [OF found] have a: "accountNumber u = a" by simp
    from up miss found have out: "get_account a s r =
        (json (UserJson (selectNoPassword u)),
         r\<lparr>entries := AList.update (accountKey a) (UserJson (selectNoPassword u), None) (entries r)\<rparr>)"
      by (simp add: get_account_cases)
    show ?thesis unfolding out using a
      by (simp add: update_conv' selectNoPassword_def keys_coincide)
  qed
  have ide_hit: "get_identity i s r = (json v, r)"
    if "map_of (entries r) (identityKey i) = Some (v, t)"
    using up that by (simp add: get_identity_cases)
  have ide_absent: "get_identity i s r = (notFound, r)"
    if "map_of (entries r) (identityKey i) = None" "findOne (\<lambda>u. identityNumber u = i) s = None"
    using up that by (simp add: get_identity_cases)
  have ide_miss: "fst (get_identity i s r) = json (UserJson (w\<lparr>password := None\<rparr>)) \<and>
       (\<forall>k. map_of (entries (snd (get_identity i s r))) k =
            (if k = identityKey i then Some (UserJson (w\<lparr>password := None\<rparr>), None)
             else map_of (entries r) k)) \<and>
       (accountNumber w \<noteq> ''identity:'' @ identityNumber w \<longrightarrow>
          map_of (entries (snd (get_identity i s r))) (accountKey (accountNumber w)) =
          map_of (entries r) (accountKey (accountNumber w)))"
    if miss: "map_of (entries r) (identityKey i) = None"
      and found: "findOne (\<lambda>u. identityNumber u = i) s = Some w"
  proof -
    from findOne_Some [OF found] have i: "identityNumber w = i" by simp
    from up miss found have out: "get_identity i s r =
        (json (UserJson (selectNoPassword w)),
         r\<lparr>entries := AList.update (identityKey i) (UserJson (selectNoPassword w), None) (entries r)\<rparr>)"
      by (simp add: get_identity_cases)
    have "accountKey (accountNumber w) = identityKey i \<longleftrightarrow>
        accountNumber w = ''identity:'' @ identityNumber w"
      using keys_coincide [of i "accountNumber w"] i by auto
    then show ?thesis unfolding out
      by (simp add: update_conv' selectNoPassword_def)
  qed
  from acc_hit acc_absent acc_miss ide_hit ide_absent ide_miss show ?thesis by blast
qed

theorem get_by_alternate_key_witness:
  "OpGet \<notin> failing emptyRedis \<and> OpSet \<notin> failing emptyRedis \<and>
   map_of (entries emptyRedis) (accountKey ''A1'') = None \<and>
   findOne (\<lambda>u. accountNumber u = ''A1'') [alice, bob] = Some alice \<and>
   accountNumber alice \<noteq> ''identity:'' @ identityNumber alice \<and>
   fst (get_account ''A1'' [alice, bob] emptyRedis) = json (UserJson (alice\<lparr>password := None\<rparr>)) \<and>
   map_of (entries (snd (get_account ''A1'' [alice, bob] emptyRedis))) (accountKey ''A1'') =
     Some (UserJson (alice\<lparr>password := None\<rparr>), None) \<and>
   map_of (entries (snd (get_account ''A1'' [alice, bob] emptyRedis))) (identityKey ''I1'') = None \<and>
   get_identity ''I9'' [alice, bob] emptyRedis = (notFound, emptyRedis)"
proof -
  have up: "OpGet \<notin> failing emptyRedis" "OpSet \<notin> failing emptyRedis" by code_simp+
  have miss: "map_of (entries emptyRedis) (accountKey ''A1'') = None" by code_simp
  have found: "findOne (\<lambda>u. accountNumber u = ''A1'') [alice, bob] = Some alice" by code_simp
  have differ: "accountNumber alice \<noteq> ''identity:'' @ identityNumber alice" by code_simp
  have ident: "identityNumber alice = ''I1''" by code_simp
  have other: "map_of (entries emptyRedis) (identityKey ''I1'') = None" by code_simp
  have miss': "map_of (entries emptyRedis) (identityKey ''I9'') = None" by code_simp
  have keys: "identityKey ''I1'' \<noteq> accountKey ''A1''" by code_simp
  have absent: "findOne (\<lambda>u. identityNumber u = ''I9'') [alice, bob] = None" by code_simp
  from get_by_alternate_key [OF up, of "''A1''" _ _ "[alice, bob]" alice "''I9''" _]
    up miss found differ ident other miss' absent keys
  show ?thesis by simp
qed

section \<open>The list route\<close>

lemma get_users_all_cases:
  assumes "parseInt q_paginate = Some 0"
  shows "get_users q_paginate q_page q_limit s r =
     (if OpGet \<in> failing r then (serverError, r)
      else case map_of (entries r) ''users:list:all'' of
             Some (v, t) \<Rightarrow> (json v, r)
           | None \<Rightarrow>
               if OpSetEx \<in> failing r then (serverError, r)
               else (json (UsersJson (find_all s) None),
                     r\<lparr>entries := AList.update ''users:list:all''
                          (UsersJson (find_all s) None, Some 300) (entries r)\<rparr>))"
  unfolding get_users_def Let_def redis_get_def redis_setEx_def using assms
  by (simp split: option.split)

lemma get_users_page_cases:
  assumes "parseInt q_paginate \<noteq> Some 0"
  shows "get_users q_paginate q_page q_limit s r =
     (if OpGet \<in> failing r then (serverError, r)
      else case map_of (entries r) (listKey (pageParam q_page) (limitParam q_limit)) of
             Some (v, t) \<Rightarrow> (json v, r)
           | None \<Rightarrow>
               (case find_page ((pageParam q_page - 1) * limitParam q_limit) (limitParam q_limit) s of
                  Inl err \<Rightarrow> (serverError, r)
                | Inr users \<Rightarrow>
                   if OpSetEx \<in> failing r then (serverError, r)
                   else (json (UsersJson users
                            (Some \<lparr>currentPage = pageParam q_page,
                                   totalPages = ceilDiv (countDocuments s) (limitParam q_limit),
                                   totalItems = countDocuments s,
                                   itemsPerPage = limitParam q_limit\<rparr>)),
                         r\<lparr>entries := AList.update (listKey (pageParam q_page) (limitParam q_limit))
                              (UsersJson users
                                (Some \<lparr>currentPage = pageParam q_page,
                                   totalPages = ceilDiv (countDocuments s) (limitParam q_limit),
                                   totalItems = countDocuments s,
                                   itemsPerPage = limitParam q_limit\<rparr>), Some 300) (entries r)\<rparr>)))"
  unfolding get_users_def Let_def redis_get_def redis_setEx_def using assms
  by (simp split: option.split sum.split)

text \<open>
  C9. The divisor of \<^verbatim>\<open>Math.ceil(total / limit)\<close> is never zero: whatever the \<^verbatim>\<open>limit\<close>
  query parameter is, the limit the route works with is not 0; it is the default 10 when
  the parameter is absent, when it does not parse to a number, and when it parses to 0.
  Whenever the route computes a pagination object (the key of the request is not cached),
  that limit is its \<^verbatim>\<open>itemsPerPage\<close> and the divisor of its \<^verbatim>\<open>totalPages\<close>.
\<close>

theorem limitParam_nonzero:
  "limitParam q \<noteq> 0 \<and>
   limitParam None = 10 \<and>
   (parseInt (Some x) = None \<longrightarrow> limitParam (Some x) = 10) \<and>
   (parseInt (Some x) = Some 0 \<longrightarrow> limitParam (Some x) = 10) \<and>
   (map_of (entries r) (listCacheKey q_paginate q_page q) = None \<and>
    payload (fst (get_users q_paginate q_page q s r)) = UsersJson us (Some p) \<longrightarrow>
      itemsPerPage p = limitParam q \<and> totalPages p = ceilDiv (totalItems p) (limitParam q))"
proof -
  have params: "limitParam q \<noteq> 0" "limitParam None = 10"
    "parseInt (Some x) = None \<longrightarrow> limitParam (Some x) = 10"
    "parseInt (Some x) = Some 0 \<longrightarrow> limitParam (Some x) = 10"
    by (simp_all add: limitParam_def orDefault_def parseInt_def split: option.split)
  have computed: "itemsPerPage p = limitParam q \<and> totalPages p = ceilDiv (totalItems p) (limitParam q)"
    if miss: "map_of (entries r) (listCacheKey q_paginate q_page q) = None"
      and out: "payload (fst (get_users q_paginate q_page q s r)) = UsersJson us (Some p)"
  proof (cases "parseInt q_paginate = Some 0")
    case True
    with miss out show ?thesis
      by (simp add: get_users_all_cases listCacheKey_def serverError_def status_json_def json_def
          split: if_splits)
  next
    case False
    with miss out show ?thesis
      by (auto simp: get_users_page_cases listCacheKey_def serverError_def status_json_def json_def
          split: if_splits sum.splits)
  qed
  from params computed show ?thesis by blast
qed

theorem limitParam_nonzero_witness:
  "limitParam (Some ''abc'') \<noteq> 0 \<and> limitParam None = 10 \<and>
   parseInt (Some ''abc'') = None \<and> limitParam (Some ''abc'') = 10 \<and>
   parseInt (Some ''0'') = Some 0 \<and> limitParam (Some ''0'') = 10 \<and>
   map_of (entries emptyRedis) (listCacheKey None None (Some ''0'')) = None \<and>
   payload (fst (get_users None None (Some ''0'') [alice] emptyRedis)) =
     UsersJson [selectNoPassword alice]
       (Some \<lparr>currentPage = 1, totalPages = 1, totalItems = 1, itemsPerPage = 10\<rparr>)"
proof -
  have nan: "parseInt (Some ''abc'') = None" by code_simp
  have zero: "parseInt (Some ''0'') = Some 0" by code_simp
  have miss: "map_of (entries emptyRedis) (listCacheKey None None (Some ''0'')) = None"
    by code_simp
  have out: "payload (fst (get_users None None (Some ''0'') [alice] emptyRedis)) =
     UsersJson [selectNoPassword alice]
       (Some \<lparr>currentPage = 1, totalPages = 1, totalItems = 1, itemsPerPage = 10\<rparr>)"
    by code_simp
  from limitParam_nonzero [of "Some ''abc''" "''abc''"]
    limitParam_nonzero [of "Some ''0''" "''0''" emptyRedis None None "[alice]"
      "[selectNoPassword alice]"
      "\<lparr>currentPage = 1, totalPages = 1, totalItems = 1, itemsPerPage = 10\<rparr>"]
    nan zero miss out
  show ?thesis by simp
qed



text \<open>White space in front of a number is skipped, whatever its encoding: U+00A0 here.\<close>

lemma limitParam_no_break_space: "limitParam (Some ([CHR 0xC2, CHR 0xA0] @ ''5'')) = 5"
  by code_simp


text \<open>
  The stale state is reached by the routes themselves: the list request on the empty store
  caches the page; a create whose first cache write fails has saved Carol by then and
  answers 500 without invalidating the list keys.
\<close>

lemma stalePage_reached:
  "get_users None (Some ''1'') (Some ''10'') [] emptyRedis = (json emptyPage, stalePage)"
  "post_user env0 carolBody [] (stalePage\<lparr>failing := {OpSet}\<rparr>) =
     (serverError, [carol], stalePage\<lparr>failing := {OpSet}\<rparr>)"
  by code_simp+



section \<open>Cache failures\<close>

text \<open>
  C3 as stated fails. The store holds Alice, and with a working cache the lookup by her
  account number answers 200 with her record from the store; with a cache whose \<^verbatim>\<open>get\<close>
  fails the same request answers 500.
\<close>

theorem get_account_cache_down:
  "fst (get_account ''A1'' [alice] emptyRedis) = json (UserJson (selectNoPassword alice)) \<and>
   fst (get_account ''A1'' [alice] downRedis) = serverError \<and>
   status serverError = 500"
  by code_simp

text \<open>
  C3, amended. The routes do not catch a cache error apart from other errors. In the list
  route and in both lookups by alternate key, a failing cache \<^verbatim>\<open>get\<close> makes the request
  fail with 500 \<^verbatim>\<open>Server error\<close>, and so does, on a miss, a failing cache write
  (\<^verbatim>\<open>set\<close> for a lookup that found its record in the store, \<^verbatim>\<open>setEx\<close> for a list); the
  cache is left as it was.
\<close>

theorem cache_failure_is_server_error:
  "(OpGet \<in> failing r \<longrightarrow>
      get_users q_paginate q_page q_limit s r = (serverError, r) \<and>
      get_account a s r = (serverError, r) \<and>
      get_identity i s r = (serverError, r)) \<and>
   (OpGet \<notin> failing r \<and> OpSet \<in> failing r \<and> map_of (entries r) (accountKey a) = None \<and>
    findOne (\<lambda>u. accountNumber u = a) s = Some u \<longrightarrow>
      get_account a s r = (serverError, r)) \<and>
   (OpGet \<notin> failing r \<and> OpSet \<in> failing r \<and> map_of (entries r) (identityKey i) = None \<and>
    findOne (\<lambda>u. identityNumber u = i) s = Some u \<longrightarrow>
      get_identity i s r = (serverError, r)) \<and>
   (OpGet \<notin> failing r \<and> OpSetEx \<in> failing r \<and>
    map_of (entries r) (listCacheKey q_paginate q_page q_limit) = None \<longrightarrow>
      get_users q_paginate q_page q_limit s r = (serverError, r)) \<and>
   status serverError = 500 \<and> payload serverError = MessageJson ''Server error''"
proof -
  have list_get: "get_users q_paginate q_page q_limit s r = (serverError, r)"
    if "OpGet \<in> failing r"
    using that
    by (cases "parseInt q_paginate = Some 0")
       (simp_all add: get_users_all_cases get_users_page_cases)
  have list_set: "get_users q_paginate q_page q_limit s r = (serverError, r)"
    if "OpGet \<notin> failing r" "OpSetEx \<in> failing r"
      "map_of (entries r) (listCacheKey q_paginate q_page q_limit) = None"
    using that
    by (cases "parseInt q_paginate = Some 0")
       (simp_all add: get_users_all_cases get_users_page_cases listCacheKey_def split: sum.split)
  have "status serverError = 500" "payload serverError = MessageJson ''Server error''"
    by (simp_all add: serverError_def status_json_def)
  with list_get list_set show ?thesis
    by (simp add: get_account_cases get_identity_cases)
qed

theorem cache_failure_is_server_error_witness:
  "OpGet \<in> failing downRedis \<and>
   get_users None None None [alice] downRedis = (serverError, downRedis) \<and>
   get_account ''A1'' [alice] downRedis = (serverError, downRedis) \<and>
   get_identity ''I1'' [alice] downRedis = (serverError, downRedis) \<and>
   status serverError = 500"
proof -
  have down: "OpGet \<in> failing downRedis" by code_simp
  from cache_failure_is_server_error [of downRedis None None None "[alice]" "''A1''" "''I1''"] down
  show ?thesis by simp
qed

end
